theory Spec2Isabelle
  imports Complex_Main "HOL-Library.Word"
begin

section \<open>Python strings\<close>

text \<open>
  A Python \<open>str\<close> is a sequence of code points and \<open>len\<close> counts them. The model
  writes a string as a \<open>string\<close> (a list of \<open>char\<close>) and reads the character
  numbered \<open>n\<close> as the code point \<open>n\<close>, so it covers the texts whose code points lie
  below 256. The character classes below are the ones Python's \<open>re\<close> module and
  \<open>str.strip\<close> use on that range.
\<close>

definition nl :: string where
  "nl = [CHR 0x0A]"

text \<open>\<open>\s\<close> of a \<open>str\<close> pattern, and the characters \<open>str.strip()\<close> removes.\<close>

definition is_space :: "char \<Rightarrow> bool" where
  "is_space c = (let n = (of_char c :: nat) in
     (9 \<le> n \<and> n \<le> 13) \<or> (28 \<le> n \<and> n \<le> 32) \<or> n = 133 \<or> n = 160)"

text \<open>\<open>\w\<close> of a \<open>str\<close> pattern: the alphanumeric code points and the underscore.\<close>

definition is_word :: "char \<Rightarrow> bool" where
  "is_word c = (let n = (of_char c :: nat) in
     (48 \<le> n \<and> n \<le> 57) \<or> (65 \<le> n \<and> n \<le> 90) \<or> n = 95 \<or> (97 \<le> n \<and> n \<le> 122) \<or>
     n = 170 \<or> n = 178 \<or> n = 179 \<or> n = 181 \<or> n = 185 \<or> n = 186 \<or>
     (188 \<le> n \<and> n \<le> 190) \<or> (192 \<le> n \<and> n \<le> 214) \<or> (216 \<le> n \<and> n \<le> 246) \<or>
     (248 \<le> n \<and> n \<le> 255))"

text \<open>\<open>s.startswith(p)\<close> and \<open>s.endswith(p)\<close>.\<close>

fun startswith :: "string \<Rightarrow> string \<Rightarrow> bool" where
  "startswith s [] = True"
| "startswith [] (p # ps) = False"
| "startswith (c # cs) (p # ps) = (c = p \<and> startswith cs ps)"

definition endswith :: "string \<Rightarrow> string \<Rightarrow> bool" where
  "endswith s p = startswith (rev s) (rev p)"

text \<open>
  \<open>s.rfind(sub)\<close>: the highest index at which \<open>sub\<close> occurs in \<open>s\<close>, and \<open>-1\<close> when
  it occurs nowhere. The highest occurrence in \<open>c # cs\<close> is the highest one in \<open>cs\<close>,
  moved by one, and otherwise the one at index 0.
\<close>

fun rfind :: "string \<Rightarrow> string \<Rightarrow> int" where
  "rfind [] sub = (if sub = [] then 0 else -1)"
| "rfind (c # cs) sub =
     (let r = rfind cs sub in
      if 0 \<le> r then r + 1 else if startswith (c # cs) sub then 0 else -1)"

text \<open>\<open>sub in s\<close>.\<close>

definition contains :: "string \<Rightarrow> string \<Rightarrow> bool" where
  "contains s sub = (0 \<le> rfind s sub)"

text \<open>
  The slice \<open>s[:n]\<close>: a negative \<open>n\<close> counts from the end, and an index out of
  range is clipped.
\<close>

definition slice_to :: "'a list \<Rightarrow> int \<Rightarrow> 'a list" where
  "slice_to s n = (if 0 \<le> n then take (nat n) s else take (nat (int (length s) + n)) s)"

text \<open>\<open>sep.join(xs)\<close>.\<close>

fun join :: "string \<Rightarrow> string list \<Rightarrow> string" where
  "join sep [] = []"
| "join sep [x] = x"
| "join sep (x # y # ys) = x @ sep @ join sep (y # ys)"

text \<open>\<open>s.strip()\<close>.\<close>

definition strip :: "string \<Rightarrow> string" where
  "strip s = rev (dropWhile is_space (rev (dropWhile is_space s)))"

text \<open>\<open>str(n)\<close> of a natural number: its decimal digits.\<close>

definition digit_char :: "nat \<Rightarrow> char" where
  "digit_char d = char_of (48 + d)"

function str_nat :: "nat \<Rightarrow> string" where
  "str_nat n = (if n < 10 then [digit_char n] else str_nat (n div 10) @ [digit_char (n mod 10)])"
  by pat_completeness auto
termination
  by (relation "measure id") auto

declare str_nat.simps [simp del]

section \<open>document\_processor.py\<close>

subsection \<open>clean\_text\<close>

text \<open>
  \<open>re.sub(r'\s+', ' ', text)\<close>: every maximal run of whitespace becomes one space.
\<close>

function collapse_ws :: "string \<Rightarrow> string" where
  "collapse_ws [] = []"
| "collapse_ws (c # cs) =
     (if is_space c then CHR '' '' # collapse_ws (dropWhile is_space cs)
      else c # collapse_ws cs)"
  by pat_completeness auto
termination
  by (relation "measure length") (auto simp: length_dropWhile_le less_Suc_eq_le)

text \<open>
  The class \<open>[^\w\s\.\,\!\?\;\:\-\(\)\[\]\"\']\<close> negated: the characters the second
  substitution keeps.
\<close>

definition keep_punct :: "char list" where
  "keep_punct = ''.,!?;:-()[]'' @ [CHR 0x22, CHR 0x27]"

definition allowed :: "char \<Rightarrow> bool" where
  "allowed c = (is_word c \<or> is_space c \<or> c \<in> set keep_punct)"

definition remove_special :: "string \<Rightarrow> string" where
  "remove_special text = filter allowed text"

text \<open>
  \<open>re.sub(r'\s+([\.!\?,;:])', r'\1', text)\<close>: a match starts at the first character
  of a whitespace run, \<open>\s+\<close> takes the whole run (the next character is no whitespace,
  so no shorter match exists), and the run is deleted when one of \<open>. ! ? , ; :\<close>
  follows it.
\<close>

definition tight_punct :: "char list" where
  "tight_punct = ''.!?,;:''"

function fix_spacing :: "string \<Rightarrow> string" where
  "fix_spacing [] = []"
| "fix_spacing (c # cs) =
     (if is_space c then
        (case dropWhile is_space cs of
           [] \<Rightarrow> c # takeWhile is_space cs
         | d # ds \<Rightarrow>
             if d \<in> set tight_punct then d # fix_spacing ds
             else c # takeWhile is_space cs @ d # fix_spacing ds)
      else c # fix_spacing cs)"
  by pat_completeness auto
termination
proof (relation "measure length", goal_cases)
  case 1
  show ?case by simp
next
  case (2 c cs d ds)
  have "length (dropWhile is_space cs) \<le> length cs" by (rule length_dropWhile_le)
  with 2 show ?case by simp
next
  case (3 c cs d ds)
  have "length (dropWhile is_space cs) \<le> length cs" by (rule length_dropWhile_le)
  with 3 show ?case by simp
next
  case 4
  show ?case by simp
qed

definition clean_text :: "string \<Rightarrow> string" where
  "clean_text text = strip (fix_spacing (remove_special (collapse_ws text)))"

subsection \<open>Errors\<close>

text \<open>
  A raised exception is a value: \<open>Exception msg\<close> for Python's \<open>Exception(msg)\<close>,
  \<open>HTTPException code detail\<close> for FastAPI's, and \<open>OtherError msg\<close> for an exception
  of a class that a library raises (\<open>TypeError\<close>, \<open>OSError\<close>, a validation error of
  pydantic), with \<open>msg\<close> its \<open>str\<close>. \<open>str_of e\<close> is \<open>str(e)\<close>, the text that the
  handlers of the code paste into their own messages.
\<close>

datatype error = Exception string | HTTPException nat string | OtherError string

fun str_of :: "error \<Rightarrow> string" where
  "str_of (Exception msg) = msg"
| "str_of (HTTPException code detail) = detail"
| "str_of (OtherError msg) = msg"

subsection \<open>Chunks\<close>

record chunk_metadata =
  source :: string
  chunk_id :: nat
  total_chunks :: nat
  char_count :: nat

record chunk =
  chunk_text :: string
  metadata :: chunk_metadata

text \<open>
  A \<open>DocumentProcessor\<close> object. Its \<open>text_splitter\<close> is an object of a library
  (\<open>RecursiveCharacterTextSplitter\<close>), held here as the function its \<open>split_text\<close>
  method computes.
\<close>

record doc_processor =
  chunk_size :: nat
  chunk_overlap :: nat
  text_splitter :: "string \<Rightarrow> string list"

definition create_chunks :: "doc_processor \<Rightarrow> string \<Rightarrow> string \<Rightarrow> chunk list" where
  "create_chunks self txt source_file =
     (let chunks = text_splitter self txt in
      map (\<lambda>(idx, c).
            \<lparr>chunk_text = c,
             metadata = \<lparr>source = source_file, chunk_id = idx,
                         total_chunks = length chunks, char_count = length c\<rparr>\<rparr>)
          (enumerate 0 chunks))"

subsection \<open>The text splitter\<close>

text \<open>
  Modelled from the spec: \<open>RecursiveCharacterTextSplitter.split_text\<close>, the method
  \<open>create_chunks\<close> calls, belongs to a library that is not among the sources. The
  definitions of this subsection follow section 4.2 of the specification: the ordered
  separator list; splitting on the coarsest separator and going to the next separator
  inside a segment that still exceeds \<open>chunk_size\<close>; a segment that no separator is
  left for is emitted as it is; the pieces are then put together into chunks of at
  most \<open>chunk_size\<close> characters, every chunk after the first starting with the last
  \<open>chunk_overlap\<close> characters of the chunk before it (all of it when it is shorter).
  A separator stays at the end of the piece before it, so that the pieces together
  are the text.
\<close>

definition separators :: "string list" where
  "separators = [nl @ nl, nl, ''. '', '' '', []]"

function split_on :: "string \<Rightarrow> string \<Rightarrow> string \<Rightarrow> string list" where
  "split_on sep acc [] = [acc]"
| "split_on sep acc (c # cs) =
     (if sep \<noteq> [] \<and> startswith (c # cs) sep
      then (acc @ sep) # split_on sep [] (drop (length sep) (c # cs))
      else split_on sep (acc @ [c]) cs)"
  by pat_completeness auto
termination
  by (relation "measure (\<lambda>(sep, acc, s). length s)") auto

definition split_at :: "string \<Rightarrow> string \<Rightarrow> string list" where
  "split_at sep s = (if sep = [] then map (\<lambda>c. [c]) s else split_on sep [] s)"

fun rec_split :: "nat \<Rightarrow> string list \<Rightarrow> string \<Rightarrow> string list" where
  "rec_split csize [] seg = [seg]"
| "rec_split csize (sep # seps) seg =
     concat (map (\<lambda>p. if csize < length p then rec_split csize seps p else [p])
                 (split_at sep seg))"

fun merge_pieces :: "nat \<Rightarrow> nat \<Rightarrow> string \<Rightarrow> string list \<Rightarrow> string list" where
  "merge_pieces csize overlap cur [] = [cur]"
| "merge_pieces csize overlap cur (p # ps) =
     (if length cur + length p \<le> csize then merge_pieces csize overlap (cur @ p) ps
      else cur # merge_pieces csize overlap (drop (length cur - overlap) cur @ p) ps)"

definition reassemble :: "nat \<Rightarrow> nat \<Rightarrow> string list \<Rightarrow> string list" where
  "reassemble csize overlap pieces =
     (case pieces of [] \<Rightarrow> [] | p # ps \<Rightarrow> merge_pieces csize overlap p ps)"

definition split_text :: "nat \<Rightarrow> nat \<Rightarrow> string \<Rightarrow> string list" where
  "split_text csize overlap txt = reassemble csize overlap (rec_split csize separators txt)"

text \<open>\<open>DocumentProcessor(chunk_size, chunk_overlap)\<close>; the defaults are 1500 and 300.\<close>

definition DocumentProcessor :: "nat \<Rightarrow> nat \<Rightarrow> doc_processor" where
  "DocumentProcessor csize overlap =
     \<lparr>chunk_size = csize, chunk_overlap = overlap, text_splitter = split_text csize overlap\<rparr>"

section \<open>The services the program calls\<close>

text \<open>
  The program reads PDF files, embeds text with a sentence-transformer model, writes
  to and queries a Pinecone index and posts prompts to the Sarvam chat endpoint. What
  these calls answer is not decided by the program, so a record of functions stands
  for them; an answer \<open>Inl msg\<close> (for an upsert, \<open>Some msg\<close>) is an exception raised
  by the call, with \<open>msg\<close> its \<open>str\<close>.
\<close>

type_synonym embedding = "real list"

record vector_metadata =
  vm_text :: string
  vm_source :: string
  vm_chunk_id :: nat
  vm_job_id :: string

record vector =
  vec_id :: string
  vec_values :: embedding
  vec_metadata :: vector_metadata

text \<open>
  A match of an index query: its score and the metadata keys the code reads with
  \<open>metadata.get\<close>, absent (\<open>None\<close>) or present.
\<close>

record match =
  m_text :: "string option"
  m_source :: "string option"
  m_chunk_id :: "nat option"
  m_score :: real

text \<open>
  A value read from the JSON reply of the chat endpoint: a string, \<open>null\<close> (Python's
  \<open>None\<close>), a number or a boolean, or an array or an object; the last three come with
  the text that \<open>str\<close> makes of the value. \<open>py_str\<close> is \<open>str\<close> of the value, which is
  what an f-string shows of it.
\<close>

datatype json_value = JString string | JNull | JNumeric string | JOther string

fun py_str :: "json_value \<Rightarrow> string" where
  "py_str (JString s) = s"
| "py_str JNull = ''None''"
| "py_str (JNumeric t) = t"
| "py_str (JOther t) = t"

text \<open>
  What the post to the chat endpoint comes to, one case for each way
  \<open>call_llm_api\<close> leaves the request: a \<open>RequestException\<close> (its text, and the text of
  the response it carries when it has one); a reply whose \<open>choices\<close> is not empty, with
  the content of the first choice, which the code returns as it is, of whatever type;
  such a reply where reading the first choice raises \<open>KeyError\<close> or \<open>IndexError\<close>; a
  reply with a \<open>response\<close> key, returned as it is; a reply with neither; and any other
  exception raised on the way (a \<open>TypeError\<close> on a reply of another shape, for one),
  which no handler of \<open>call_llm_api\<close> catches.
\<close>

datatype llm_outcome =
    RequestFailed string "string option"
  | Choice json_value
  | MalformedChoice string
  | ResponseField json_value
  | UnexpectedFormat
  | Uncaught string

text \<open>
  What saving an uploaded file comes to: the file is written; \<open>open\<close> raises (the
  directory of the path does not exist, for one), and nothing is written; or the file
  is opened and the write raises, with the bytes that have reached the file.
\<close>

datatype write_outcome = Written | OpenFailed string | WriteFailed string "8 word list"

record services =
  pdf_pages :: "string \<Rightarrow> string + string list"
  encode :: "string list \<Rightarrow> string + embedding list"
  index_upsert :: "vector list \<Rightarrow> string option"
  index_query :: "embedding \<Rightarrow> nat \<Rightarrow> string + match list"
  sarvam_key :: "string option"
  sarvam_post :: "string \<Rightarrow> llm_outcome"
  fmt_score :: "real \<Rightarrow> string"
  disk_write :: "string \<Rightarrow> 8 word list \<Rightarrow> write_outcome"
  coerces_numbers :: bool
  validation_error :: "json_value \<Rightarrow> string"

text \<open>
  \<open>pdf_pages sv path\<close> is the text \<open>page.extract_text()\<close> gives for each page of the
  file, in order (the empty string where it gives nothing). \<open>fmt_score\<close> is the format
  \<open>:.2f\<close> of a float. \<open>disk_write sv path content\<close> is what
  \<open>open(path, "wb")\<close> and the write of \<open>content\<close> come to in \<open>upload_files\<close>.
  \<open>coerces_numbers\<close> and \<open>validation_error\<close> describe the pydantic library in use:
  whether a \<open>str\<close> field takes a number or a boolean as its text (version 1 does,
  version 2 does not), and the text of the error raised for a value that the field
  refuses.
\<close>

subsection \<open>extract\_text\_from\_pdf and process\_pdf\<close>

fun page_texts :: "nat \<Rightarrow> string list \<Rightarrow> string" where
  "page_texts page_num [] = []"
| "page_texts page_num (page_text # pages) =
     (if page_text \<noteq> []
      then nl @ nl @ ''--- Page '' @ str_nat page_num @ '' ---'' @ nl @ nl @ page_text
      else []) @ page_texts (page_num + 1) pages"

definition extract_text_from_pdf :: "services \<Rightarrow> string \<Rightarrow> error + string" where
  "extract_text_from_pdf sv pdf_path =
     (case pdf_pages sv pdf_path of
        Inl msg \<Rightarrow> Inl (Exception (''Error extracting text from PDF: '' @ msg))
      | Inr pages \<Rightarrow>
          (let txt = page_texts 1 pages in
           if strip txt = []
           then Inl (Exception (''Error extracting text from PDF: '' @
                                ''No text could be extracted from PDF''))
           else Inr (clean_text txt)))"

definition process_pdf :: "doc_processor \<Rightarrow> services \<Rightarrow> string \<Rightarrow> string \<Rightarrow> error + chunk list" where
  "process_pdf self sv pdf_path fname =
     (case extract_text_from_pdf sv pdf_path of
        Inl e \<Rightarrow> Inl (Exception (''Error processing PDF '' @ fname @ '': '' @ str_of e))
      | Inr txt \<Rightarrow> Inr (create_chunks self txt fname))"

section \<open>rag\_engine.py\<close>

definition generate_embeddings :: "services \<Rightarrow> string list \<Rightarrow> error + embedding list" where
  "generate_embeddings sv texts =
     (case encode sv texts of
        Inl msg \<Rightarrow> Inl (Exception (''Error generating embeddings: '' @ msg))
      | Inr embeddings \<Rightarrow> Inr embeddings)"

subsection \<open>store\_embeddings\<close>

text \<open>The vectors prepared for the upsert, one for each pair of \<open>zip(chunks, embeddings)\<close>.\<close>

definition prepare_vectors :: "string \<Rightarrow> chunk list \<Rightarrow> embedding list \<Rightarrow> vector list" where
  "prepare_vectors job_id chunks embeddings =
     map (\<lambda>(idx, (c, e)).
           \<lparr>vec_id = job_id @ ''_'' @ source (metadata c) @ ''_'' @ str_nat idx,
            vec_values = e,
            vec_metadata = \<lparr>vm_text = chunk_text c, vm_source = source (metadata c),
                            vm_chunk_id = chunk_id (metadata c), vm_job_id = job_id\<rparr>\<rparr>)
         (enumerate 0 (zip chunks embeddings))"

text \<open>\<open>[vectors[i:i + batch_size] for i in range(0, len(vectors), batch_size)]\<close>.\<close>

function batches :: "nat \<Rightarrow> 'a list \<Rightarrow> 'a list list" where
  "batches batch_size vs =
     (if vs = [] \<or> batch_size = 0 then []
      else take batch_size vs # batches batch_size (drop batch_size vs))"
  by pat_completeness auto
termination
  by (relation "measure (\<lambda>(b, vs). length vs)") auto

declare batches.simps [simp del]

text \<open>
  The index is the list of the records written to it, in the order of writing. The
  upsert loop stops at the first batch whose call raises; the batches before it stay
  written.
\<close>

fun upsert_batches :: "services \<Rightarrow> vector list list \<Rightarrow> vector list \<Rightarrow> string option \<times> vector list" where
  "upsert_batches sv [] written = (None, written)"
| "upsert_batches sv (batch # rest) written =
     (case index_upsert sv batch of
        Some msg \<Rightarrow> (Some msg, written)
      | None \<Rightarrow> upsert_batches sv rest (written @ batch))"

definition store_embeddings ::
  "services \<Rightarrow> vector list \<Rightarrow> chunk list \<Rightarrow> string \<Rightarrow> (error + unit) \<times> vector list" where
  "store_embeddings sv written chunks job_id =
     (case generate_embeddings sv (map chunk_text chunks) of
        Inl e \<Rightarrow> (Inl (Exception (''Error storing embeddings: '' @ str_of e)), written)
      | Inr embeddings \<Rightarrow>
          (case upsert_batches sv (batches 100 (prepare_vectors job_id chunks embeddings)) written of
             (Some msg, written') \<Rightarrow>
               (Inl (Exception (''Error storing embeddings: '' @ msg)), written')
           | (None, written') \<Rightarrow> (Inr (), written')))"

subsection \<open>retrieve\_context\<close>

record retrieved =
  ctx_text :: string
  ctx_source :: string
  ctx_score :: real
  ctx_chunk_id :: nat

definition context_of :: "match \<Rightarrow> retrieved" where
  "context_of m =
     \<lparr>ctx_text = (case m_text m of None \<Rightarrow> [] | Some t \<Rightarrow> t),
      ctx_source = (case m_source m of None \<Rightarrow> [] | Some s \<Rightarrow> s),
      ctx_score = m_score m,
      ctx_chunk_id = (case m_chunk_id m of None \<Rightarrow> 0 | Some i \<Rightarrow> i)\<rparr>"

definition retrieve_context :: "services \<Rightarrow> string \<Rightarrow> nat \<Rightarrow> error + retrieved list" where
  "retrieve_context sv query top_k =
     (case generate_embeddings sv [query] of
        Inl e \<Rightarrow> Inl (Exception (''Error retrieving context: '' @ str_of e))
      | Inr [] \<Rightarrow> Inl (Exception (''Error retrieving context: '' @ ''list index out of range''))
      | Inr (query_embedding # _) \<Rightarrow>
          (case index_query sv query_embedding top_k of
             Inl msg \<Rightarrow> Inl (Exception (''Error retrieving context: '' @ msg))
           | Inr matches \<Rightarrow> Inr (map context_of matches)))"

subsection \<open>call\_llm\_api\<close>

definition truncation_marker :: string where
  "truncation_marker = nl @ ''...[truncated]...'' @ nl"

text \<open>
  The truncation of a prompt that is too long, as \<open>call_llm_api\<close> does it before it
  builds the payload.
\<close>

definition truncate_prompt :: "string \<Rightarrow> string" where
  "truncate_prompt prompt =
     (let max_length = 2500 in
      if max_length < int (length prompt) then
        (let question_start = rfind prompt ''Question:'' in
         if 0 < question_start then
           (let context_part = take (nat question_start) prompt;
                question_part = drop (nat question_start) prompt;
                available_space = max_length - int (length question_part) - 100;
                context_part = slice_to context_part available_space @ truncation_marker
            in context_part @ question_part)
         else take (nat max_length) prompt)
      else prompt)"

text \<open>
  \<open>call_llm_api\<close> gives its result and the list of the prompts it has posted to the
  chat endpoint (none, or one).
\<close>

definition call_llm_api :: "services \<Rightarrow> string \<Rightarrow> (error + json_value) \<times> string list" where
  "call_llm_api sv prompt =
     (if sarvam_key sv = None \<or> sarvam_key sv = Some []
      then (Inl (Exception ''SARVAM_API_KEY not found in environment variables''), [])
      else
        (let payload = truncate_prompt prompt in
         (case sarvam_post sv payload of
            RequestFailed msg resp \<Rightarrow>
              Inl (Exception (''Sarvam AI API error: '' @ msg @
                     (case resp of None \<Rightarrow> [] | Some t \<Rightarrow> nl @ ''Response: '' @ t)))
          | Choice c \<Rightarrow> Inr c
          | MalformedChoice msg \<Rightarrow>
              Inl (Exception (''Error parsing Sarvam AI response: '' @ msg))
          | ResponseField r \<Rightarrow> Inr r
          | UnexpectedFormat \<Rightarrow>
              Inl (Exception ''Unexpected response format from Sarvam AI'')
          | Uncaught msg \<Rightarrow> Inl (OtherError msg),
          [payload])))"

subsection \<open>get\_response\<close>

text \<open>
  A turn of a chat session. \<open>chat\<close> appends turns of the roles \<open>user\<close> and
  \<open>assistant\<close> only; \<open>role_upper\<close> is \<open>msg['role'].upper()\<close>. The content of a turn
  is the message of the user or what \<open>get_response\<close> has returned, of whatever type.
\<close>

datatype role = User | Assistant

fun role_upper :: "role \<Rightarrow> string" where
  "role_upper User = ''USER''"
| "role_upper Assistant = ''ASSISTANT''"

record turn =
  role :: role
  content :: json_value
  timestamp :: string

record source_info =
  si_source :: string
  excerpt :: string
  relevance_score :: real

definition context_block :: "services \<Rightarrow> retrieved list \<Rightarrow> string" where
  "context_block sv contexts =
     join (nl @ nl)
       (map (\<lambda>c. ''[Source: '' @ ctx_source c @ '', Relevance: '' @ fmt_score sv (ctx_score c) @
                   '']'' @ nl @ ctx_text c) contexts)"

definition history_block :: "turn list \<Rightarrow> string" where
  "history_block history =
     (if history \<noteq> [] then
        (let recent_history = drop (length history - 4) history in
         join nl (map (\<lambda>msg. role_upper (role msg) @ '': '' @ py_str (content msg)) recent_history))
      else [])"

definition prompt_head :: string where
  "prompt_head =
     ''You are a helpful AI assistant answering questions based on provided documents.'' @ nl @
     nl @
     ''Context from documents:'' @ nl"

definition prompt_instructions :: string where
  "prompt_instructions =
     nl @ nl @
     ''Instructions:'' @ nl @
     ''1. Answer the question based ONLY on the provided context'' @ nl @
     ''2. Be specific and cite sources when possible'' @ nl @
     ''3. If the context doesn't contain the answer, say so'' @ nl @
     ''4. Keep your answer concise and relevant'' @ nl @
     ''5. Maintain conversation continuity if there's previous context'' @ nl @
     ''6. No special characters and response should be in plain text'' @ nl @
     ''Answer:''"

definition build_prompt :: "string \<Rightarrow> string \<Rightarrow> string \<Rightarrow> string" where
  "build_prompt context_text history_text query =
     prompt_head @ context_text @ nl @ nl @
     (if history_text \<noteq> [] then ''Previous conversation:'' @ nl @ history_text @ nl @ nl else []) @
     ''User Question: '' @ query @ prompt_instructions"

definition fallback_answer :: string where
  "fallback_answer =
     ''I don't have enough information to answer that question based on the uploaded documents.''"

definition get_response ::
  "services \<Rightarrow> string \<Rightarrow> turn list \<Rightarrow> (error + json_value \<times> source_info list) \<times> string list" where
  "get_response sv query history =
     (case retrieve_context sv query 5 of
        Inl e \<Rightarrow> (Inl (Exception (''Error generating response: '' @ str_of e)), [])
      | Inr contexts \<Rightarrow>
          if contexts = [] then (Inr (JString fallback_answer, []), [])
          else
            (let context_text = context_block sv contexts;
                 history_text = history_block history;
                 prompt = build_prompt context_text history_text query
             in case call_llm_api sv prompt of
                  (Inl e, posted) \<Rightarrow>
                    (Inl (Exception (''Error generating response: '' @ str_of e)), posted)
                | (Inr response, posted) \<Rightarrow>
                    (Inr (response,
                          map (\<lambda>c. \<lparr>si_source = ctx_source c,
                                     excerpt = take 200 (ctx_text c) @ ''...'',
                                     relevance_score = ctx_score c\<rparr>)
                              (take 3 contexts)),
                     posted)))"

section \<open>main.py\<close>

text \<open>
  The module keeps two dictionaries, \<open>job_status\<close> and \<open>chat_sessions\<close>, and writes
  files below \<open>uploads\<close> and \<open>processed\<close>. A dictionary is a map; the files on disk are
  a map from paths to contents. Saving an uploaded file may fail, as \<open>disk_write\<close>
  tells; the write of the metadata file by the background task is taken to succeed. The
  values of \<open>uuid.uuid4()\<close> and \<open>datetime.now().isoformat()\<close> are arguments of the
  functions that read them.
\<close>

type_synonym bytes = "8 word list"

record upload_file =
  uf_filename :: string
  uf_content :: bytes

record file_info =
  filename :: string
  path :: string
  file_size :: nat
  upload_time :: string

datatype job_state = Pending | Processing | Completed | Failed

record job =
  status :: job_state
  progress :: int
  message :: string
  files_processed :: nat
  total_files :: nat
  files :: "file_info list"

record app_state =
  disk :: "string \<rightharpoonup> bytes"
  job_status :: "string \<rightharpoonup> job"
  chat_sessions :: "string \<rightharpoonup> turn list"

definition UPLOAD_DIR :: string where
  "UPLOAD_DIR = ''uploads''"

definition PROCESSED_DIR :: string where
  "PROCESSED_DIR = ''processed''"

text \<open>\<open>os.path.join(a, b)\<close> on a POSIX system.\<close>

definition path_join :: "string \<Rightarrow> string \<Rightarrow> string" where
  "path_join a b =
     (if startswith b ''/'' then b
      else if a = [] \<or> endswith a ''/'' then a @ b
      else a @ ''/'' @ b)"

subsection \<open>upload\_files\<close>

text \<open>
  The loop that checks and saves the files, one after the other: it stops at the
  first file that is refused or that cannot be saved, with the files before it
  written. The name of the file on disk is made of the job id and of the name the
  client has sent, as it is. An error of \<open>open\<close> or of the write is not handled: it leaves
  the endpoint as it is raised.
\<close>

fun save_files ::
  "services \<Rightarrow> string \<Rightarrow> (nat \<Rightarrow> string) \<Rightarrow> upload_file list \<Rightarrow> file_info list \<Rightarrow>
   (string \<rightharpoonup> bytes) \<Rightarrow> (error + file_info list) \<times> (string \<rightharpoonup> bytes)" where
  "save_files sv job_id now [] file_paths d = (Inr file_paths, d)"
| "save_files sv job_id now (f # rest) file_paths d =
     (if \<not> endswith (uf_filename f) ''.pdf''
      then (Inl (HTTPException 400 (''Only PDF files allowed: '' @ uf_filename f)), d)
      else if 10 * 1024 * 1024 < length (uf_content f)
      then (Inl (HTTPException 400 (''File too large: '' @ uf_filename f)), d)
      else
        (let file_path = path_join UPLOAD_DIR (job_id @ ''_'' @ uf_filename f) in
         case disk_write sv file_path (uf_content f) of
           OpenFailed msg \<Rightarrow> (Inl (OtherError msg), d)
         | WriteFailed msg partial \<Rightarrow> (Inl (OtherError msg), d(file_path \<mapsto> partial))
         | Written \<Rightarrow>
             save_files sv job_id now rest
               (file_paths @ [\<lparr>filename = uf_filename f, path = file_path,
                               file_size = length (uf_content f),
                               upload_time = now (length file_paths)\<rparr>])
               (d(file_path \<mapsto> uf_content f))))"

record upload_response =
  ur_job_id :: string
  ur_message :: string
  ur_total_files :: nat

definition new_job :: "nat \<Rightarrow> file_info list \<Rightarrow> job" where
  "new_job n file_paths =
     \<lparr>status = Pending, progress = 0, message = ''Files uploaded, processing started'',
      files_processed = 0, total_files = n, files = file_paths\<rparr>"

text \<open>
  \<open>upload_files\<close> answers with an error or with its response and the arguments of the
  background task it has scheduled, and leaves a new state. \<open>job_id\<close> is the value of
  \<open>uuid.uuid4()\<close>, \<open>now k\<close> the time read when the file number \<open>k\<close> is saved.
\<close>

definition upload_files ::
  "services \<Rightarrow> app_state \<Rightarrow> upload_file list \<Rightarrow> string \<Rightarrow> (nat \<Rightarrow> string) \<Rightarrow>
   (error + upload_response \<times> string \<times> file_info list) \<times> app_state" where
  "upload_files sv st fs job_id now =
     (if 15 < length fs then (Inl (HTTPException 400 ''Maximum 15 files allowed''), st)
      else
        (case save_files sv job_id now fs [] (disk st) of
           (Inl e, d) \<Rightarrow> (Inl e, st\<lparr>disk := d\<rparr>)
         | (Inr file_paths, d) \<Rightarrow>
             (Inr (\<lparr>ur_job_id = job_id, ur_message = ''Files uploaded successfully'',
                    ur_total_files = length fs\<rparr>, job_id, file_paths),
              st\<lparr>disk := d,
                 job_status := (job_status st)(job_id \<mapsto> new_job (length fs) file_paths)\<rparr>)))"

subsection \<open>process\_documents\_task\<close>

text \<open>
  The task works on the entry \<open>job_status[job_id]\<close>, which \<open>upload_files\<close> has made
  before it schedules the task, on the vector index and on the directory
  \<open>processed\<close>. It is modelled as the sequence of the states it goes through, one
  state after each assignment and each call that writes.

  The code sets the progress of file \<open>idx\<close> of \<open>n\<close> to \<open>int((idx / n) * 50)\<close> in
  floating point; for every \<open>n\<close> below 50 that is \<open>idx * 50 div n\<close>, and \<open>upload_files\<close>
  admits 15 files at most.
\<close>

record job_metadata =
  md_job_id :: string
  md_files :: "file_info list"
  chunks_count :: nat
  processed_at :: string

record task_state =
  job :: job
  index :: "vector list"
  processed :: "string \<rightharpoonup> job_metadata"

fun process_files ::
  "doc_processor \<Rightarrow> services \<Rightarrow> nat \<Rightarrow> nat \<Rightarrow> file_info list \<Rightarrow> chunk list \<Rightarrow> task_state \<Rightarrow>
   (error + chunk list) \<times> task_state \<times> task_state list" where
  "process_files dp sv n idx [] all_chunks s = (Inr all_chunks, s, [])"
| "process_files dp sv n idx (file_info # rest) all_chunks s =
     (let s1 = s\<lparr>job := (job s)\<lparr>progress := int (idx * 50 div n)\<rparr>\<rparr>;
          s2 = s1\<lparr>job := (job s1)\<lparr>message := ''Processing '' @ filename file_info\<rparr>\<rparr>
      in case process_pdf dp sv (path file_info) (filename file_info) of
           Inl e \<Rightarrow> (Inl e, s2, [s1, s2])
         | Inr chunks \<Rightarrow>
             (let s3 = s2\<lparr>job := (job s2)\<lparr>files_processed := idx + 1\<rparr>\<rparr> in
              case process_files dp sv n (idx + 1) rest (all_chunks @ chunks) s3 of
                (r, s', tr) \<Rightarrow> (r, s', s1 # s2 # s3 # tr)))"

definition task_failed :: "error \<Rightarrow> task_state \<Rightarrow> task_state list" where
  "task_failed e s =
     (let s1 = s\<lparr>job := (job s)\<lparr>status := Failed\<rparr>\<rparr>;
          s2 = s1\<lparr>job := (job s1)\<lparr>message := ''Error: '' @ str_of e\<rparr>\<rparr>
      in [s1, s2])"

text \<open>
  The second half of the task, from the line that sets the progress to 60 on; the
  chunks of all files are in \<open>all_chunks\<close>.
\<close>

definition store_and_complete ::
  "services \<Rightarrow> string \<Rightarrow> file_info list \<Rightarrow> string \<Rightarrow> chunk list \<Rightarrow> task_state \<Rightarrow> task_state list" where
  "store_and_complete sv job_id file_paths now all_chunks s3 =
     (let s4 = s3\<lparr>job := (job s3)\<lparr>progress := 60\<rparr>\<rparr>;
          s5 = s4\<lparr>job := (job s4)\<lparr>message := ''Generating embeddings''\<rparr>\<rparr>
      in [s4, s5] @
         (case store_embeddings sv (index s5) all_chunks job_id of
            (Inl e, written) \<Rightarrow>
              (let s6 = s5\<lparr>index := written\<rparr> in s6 # task_failed e s6)
          | (Inr u, written) \<Rightarrow>
              (let s6 = s5\<lparr>index := written\<rparr>;
                   metadata_path = path_join PROCESSED_DIR (job_id @ ''_metadata.json'');
                   s7 = s6\<lparr>processed := (processed s6)(metadata_path \<mapsto>
                           \<lparr>md_job_id = job_id, md_files = file_paths,
                            chunks_count = length all_chunks, processed_at = now\<rparr>)\<rparr>;
                   s8 = s7\<lparr>job := (job s7)\<lparr>status := Completed\<rparr>\<rparr>;
                   s9 = s8\<lparr>job := (job s8)\<lparr>progress := 100\<rparr>\<rparr>;
                   s10 = s9\<lparr>job := (job s9)\<lparr>message := ''Processing completed successfully''\<rparr>\<rparr>
               in [s6, s7, s8, s9, s10])))"

definition process_documents_task ::
  "doc_processor \<Rightarrow> services \<Rightarrow> string \<Rightarrow> file_info list \<Rightarrow> string \<Rightarrow> task_state \<Rightarrow> task_state list" where
  "process_documents_task dp sv job_id file_paths now s0 =
     (let s1 = s0\<lparr>job := (job s0)\<lparr>status := Processing\<rparr>\<rparr>;
          s2 = s1\<lparr>job := (job s1)\<lparr>message := ''Extracting text from PDFs''\<rparr>\<rparr>
      in [s0, s1, s2] @
         (case process_files dp sv (length file_paths) 0 file_paths [] s2 of
            (Inl e, s3, tr) \<Rightarrow> tr @ task_failed e s3
          | (Inr all_chunks, s3, tr) \<Rightarrow>
              tr @ store_and_complete sv job_id file_paths now all_chunks s3))"

subsection \<open>chat and the session endpoints\<close>

record chat_message =
  cm_message :: string
  cm_session_id :: "string option"

record chat_response =
  cr_response :: string
  cr_sources :: "source_info list"
  cr_session_id :: string

text \<open>
  \<open>chat\<close> answers with an error or a response and leaves a new state. \<open>uuid\<close> is the
  value \<open>uuid.uuid4()\<close> would give, \<open>t_user\<close> and \<open>t_assistant\<close> the two times read for
  the turns. \<open>resolve_session_id\<close> is \<open>chat_message.session_id or str(uuid.uuid4())\<close>:
  an absent and an empty id both give the new one.

  \<open>response_field\<close> is the check that \<open>ChatResponse\<close> makes of its field
  \<open>response: str\<close> when the response is built: a string passes, a number or a boolean
  passes as its text where the library coerces it, and any other value raises the
  validation error. \<open>chat\<close> builds the response after it has appended the two turns,
  inside the same \<open>try\<close>: a response that is refused leaves as status 500, with the
  turns in the history.
\<close>

definition response_field :: "services \<Rightarrow> json_value \<Rightarrow> error + string" where
  "response_field sv v =
     (case v of
        JString s \<Rightarrow> Inr s
      | JNumeric t \<Rightarrow> if coerces_numbers sv then Inr t
                     else Inl (OtherError (validation_error sv v))
      | _ \<Rightarrow> Inl (OtherError (validation_error sv v)))"

definition resolve_session_id :: "chat_message \<Rightarrow> string \<Rightarrow> string" where
  "resolve_session_id msg uuid =
     (case cm_session_id msg of
        None \<Rightarrow> uuid
      | Some s \<Rightarrow> if s = [] then uuid else s)"

definition chat ::
  "services \<Rightarrow> app_state \<Rightarrow> chat_message \<Rightarrow> string \<Rightarrow> string \<Rightarrow> string \<Rightarrow>
   (error + chat_response) \<times> app_state" where
  "chat sv st msg uuid t_user t_assistant =
     (let session_id = resolve_session_id msg uuid;
          (sessions, history) = (case chat_sessions st session_id of
                                   None \<Rightarrow> ((chat_sessions st)(session_id \<mapsto> []), [])
                                 | Some h \<Rightarrow> (chat_sessions st, h))
      in case fst (get_response sv (cm_message msg) history) of
           Inr (response, sources) \<Rightarrow>
             (let st' = st\<lparr>chat_sessions := sessions(session_id \<mapsto>
                    history @ [\<lparr>role = User, content = JString (cm_message msg),
                                timestamp = t_user\<rparr>,
                               \<lparr>role = Assistant, content = response,
                                timestamp = t_assistant\<rparr>])\<rparr>
              in case response_field sv response of
                   Inr shown \<Rightarrow>
                     (Inr \<lparr>cr_response = shown, cr_sources = sources,
                           cr_session_id = session_id\<rparr>, st')
                 | Inl e \<Rightarrow>
                     (Inl (HTTPException 500 (''Error generating response: '' @ str_of e)), st'))
         | Inl e \<Rightarrow>
             (Inl (HTTPException 500 (''Error generating response: '' @ str_of e)),
              st\<lparr>chat_sessions := sessions\<rparr>))"

definition get_chat_history :: "app_state \<Rightarrow> string \<Rightarrow> string \<times> turn list" where
  "get_chat_history st session_id =
     (case chat_sessions st session_id of
        None \<Rightarrow> (session_id, [])
      | Some h \<Rightarrow> (session_id, h))"

definition clear_chat :: "app_state \<Rightarrow> string \<Rightarrow> app_state" where
  "clear_chat st session_id =
     (case chat_sessions st session_id of
        None \<Rightarrow> st
      | Some h \<Rightarrow> st\<lparr>chat_sessions := (chat_sessions st)(session_id \<mapsto> [])\<rparr>)"

record health =
  active_jobs :: nat
  active_sessions :: nat

definition health_check :: "app_state \<Rightarrow> health" where
  "health_check st =
     \<lparr>active_jobs = card (dom (job_status st)), active_sessions = card (dom (chat_sessions st))\<rparr>"

section \<open>Concrete inputs\<close>

text \<open>
  Services with fixed answers, and small inputs, on which the properties below are
  evaluated.
\<close>

definition demo_services :: "match list \<Rightarrow> llm_outcome \<Rightarrow> services" where
  "demo_services matches reply =
     \<lparr>pdf_pages = (\<lambda>p. Inr [''hello world'']),
      encode = (\<lambda>ts. Inr (map (\<lambda>t. [0]) ts)),
      index_upsert = (\<lambda>b. None),
      index_query = (\<lambda>e k. Inr matches),
      sarvam_key = Some ''key'',
      sarvam_post = (\<lambda>p. reply),
      fmt_score = (\<lambda>x. ''1.00''),
      disk_write = (\<lambda>p c. if contains (drop 8 p) ''/''
                            then OpenFailed (''[Errno 2] No such file or directory: '' @
                                             [CHR 0x27] @ p @ [CHR 0x27])
                            else Written),
      coerces_numbers = False,
      validation_error = (\<lambda>v. ''1 validation error for ChatResponse'')\<rparr>"

text \<open>
  These services format a score as \<open>1.00\<close>, which is the format of the score 1 that
  the matches below have. They save a file below \<open>uploads\<close> unless its name has a
  slash after the directory: there is no directory of that name, and \<open>open\<close> raises.
\<close>

definition demo_match :: match where
  "demo_match =
     \<lparr>m_text = Some ''Paris is the capital.'', m_source = Some ''a.pdf'',
      m_chunk_id = Some 0, m_score = 1\<rparr>"

definition demo_msg :: chat_message where
  "demo_msg = \<lparr>cm_message = ''capital?'', cm_session_id = Some ''s1''\<rparr>"

definition empty_state :: app_state where
  "empty_state = \<lparr>disk = Map.empty, job_status = Map.empty, chat_sessions = Map.empty\<rparr>"

text \<open>
  Services whose index returns one match and whose generation backend answers with a
  first choice of content \<open>null\<close>; \<open>msg\<close> is the text of the error that the validation
  of \<open>ChatResponse\<close> raises for it, which depends on the version of the library.
\<close>

definition null_reply_services :: "string \<Rightarrow> services" where
  "null_reply_services msg =
     (demo_services [demo_match] (Choice JNull))\<lparr>validation_error := (\<lambda>v. msg)\<rparr>"

subsection \<open>Uploads\<close>

text \<open>
  A file that \<open>upload_files\<close> accepts, the error it raises for one it refuses, whether
  a file is saved without an error of the file system, and the disk after the files of
  a list have been written in order.
\<close>

definition acceptable :: "upload_file \<Rightarrow> bool" where
  "acceptable f = (endswith (uf_filename f) ''.pdf'' \<and> length (uf_content f) \<le> 10 * 1024 * 1024)"

definition rejection :: "upload_file \<Rightarrow> error" where
  "rejection f =
     (if \<not> endswith (uf_filename f) ''.pdf''
      then HTTPException 400 (''Only PDF files allowed: '' @ uf_filename f)
      else HTTPException 400 (''File too large: '' @ uf_filename f))"

definition saved :: "services \<Rightarrow> string \<Rightarrow> upload_file \<Rightarrow> bool" where
  "saved sv job_id f =
     (disk_write sv (path_join UPLOAD_DIR (job_id @ ''_'' @ uf_filename f)) (uf_content f) = Written)"

definition write_all :: "string \<Rightarrow> upload_file list \<Rightarrow> (string \<rightharpoonup> bytes) \<Rightarrow> (string \<rightharpoonup> bytes)" where
  "write_all job_id fs d =
     fold (\<lambda>f d. d(path_join UPLOAD_DIR (job_id @ ''_'' @ uf_filename f) \<mapsto> uf_content f)) fs d"

definition pdf_a :: upload_file where
  "pdf_a = \<lparr>uf_filename = ''a.pdf'', uf_content = [1, 2, 3]\<rparr>"

definition txt_b :: upload_file where
  "txt_b = \<lparr>uf_filename = ''b.txt'', uf_content = [4]\<rparr>"

definition sub_pdf :: upload_file where
  "sub_pdf = \<lparr>uf_filename = ''sub/x.pdf'', uf_content = [5]\<rparr>"

subsection \<open>An ingestion run of two files\<close>

text \<open>
  A processor whose splitter gives the text back as one chunk, two uploaded files of
  one page each, and the task run on them.
\<close>

definition demo_processor :: doc_processor where
  "demo_processor = \<lparr>chunk_size = 1500, chunk_overlap = 300, text_splitter = (\<lambda>t. [t])\<rparr>"

definition demo_files :: "file_info list" where
  "demo_files =
     [\<lparr>filename = ''a.pdf'', path = ''uploads/j_a.pdf'', file_size = 3, upload_time = ''t0''\<rparr>,
      \<lparr>filename = ''b.pdf'', path = ''uploads/j_b.pdf'', file_size = 3, upload_time = ''t1''\<rparr>]"

definition demo_task_state :: task_state where
  "demo_task_state = \<lparr>job = new_job 2 demo_files, index = [], processed = Map.empty\<rparr>"

definition demo_run :: "task_state list" where
  "demo_run =
     process_documents_task demo_processor (demo_services [] UnexpectedFormat) ''j''
       demo_files ''now'' demo_task_state"

definition demo_chunks :: "chunk list" where
  "demo_chunks =
     create_chunks demo_processor ''x'' ''a.pdf'' @ create_chunks demo_processor ''y'' ''b.pdf''"

subsection \<open>The chunks of a job\<close>

text \<open>
  Whether \<open>process_pdf\<close> returns for a file, the chunks it returns, the chunks of all
  files of a job in order, and the path of the metadata file of a job.
\<close>

definition readable :: "doc_processor \<Rightarrow> services \<Rightarrow> file_info \<Rightarrow> bool" where
  "readable dp sv f = (case process_pdf dp sv (path f) (filename f) of Inl e \<Rightarrow> False | Inr cs \<Rightarrow> True)"

definition chunks_of :: "doc_processor \<Rightarrow> services \<Rightarrow> file_info \<Rightarrow> chunk list" where
  "chunks_of dp sv f = (case process_pdf dp sv (path f) (filename f) of Inl e \<Rightarrow> [] | Inr cs \<Rightarrow> cs)"

definition all_chunks_of :: "doc_processor \<Rightarrow> services \<Rightarrow> file_info list \<Rightarrow> chunk list" where
  "all_chunks_of dp sv fs = concat (map (chunks_of dp sv) fs)"

definition metadata_path :: "string \<Rightarrow> string" where
  "metadata_path job_id = path_join PROCESSED_DIR (job_id @ ''_metadata.json'')"

text \<open>Services whose PDF reader raises, and services whose index refuses every upsert.\<close>

definition unreadable_services :: services where
  "unreadable_services = (demo_services [] UnexpectedFormat)\<lparr>pdf_pages := (\<lambda>p. Inl ''cannot open'')\<rparr>"

definition full_index_services :: services where
  "full_index_services = (demo_services [] UnexpectedFormat)\<lparr>index_upsert := (\<lambda>b. Some ''index is full'')\<rparr>"

subsection \<open>The parts of a prompt\<close>

text \<open>
  The prompt that \<open>get_response\<close> builds, in two parts: the text before the
  \<open>Question:\<close> of the template (the header, the context block, the history block when
  there is one, and the word \<open>User\<close>), and the text from it on (the question and the
  instructions).
\<close>

definition before_question :: "string \<Rightarrow> string \<Rightarrow> string" where
  "before_question context_text history_text =
     prompt_head @ context_text @ nl @ nl @
     (if history_text \<noteq> [] then ''Previous conversation:'' @ nl @ history_text @ nl @ nl else []) @
     ''User ''"

definition question_part :: "string \<Rightarrow> string" where
  "question_part query = ''Question: '' @ query @ prompt_instructions"

subsection \<open>A long context\<close>

text \<open>
  Services whose index returns two matches of 1500 characters each, the contexts that
  \<open>retrieve_context\<close> makes of them, a history of one exchange, a query, and a query
  that has the text \<open>Question:\<close> in it.
\<close>

definition long_match_a :: match where
  "long_match_a =
     \<lparr>m_text = Some (replicate 1500 CHR ''a''), m_source = Some ''a.pdf'',
      m_chunk_id = Some 0, m_score = 1\<rparr>"

definition long_match_b :: match where
  "long_match_b =
     \<lparr>m_text = Some (replicate 1500 CHR ''b''), m_source = Some ''b.pdf'',
      m_chunk_id = Some 0, m_score = 1\<rparr>"

definition long_services :: services where
  "long_services = demo_services [long_match_a, long_match_b] (Choice (JString ''ok''))"

definition long_contexts :: "retrieved list" where
  "long_contexts = [context_of long_match_a, context_of long_match_b]"

definition demo_history :: "turn list" where
  "demo_history =
     [\<lparr>role = User, content = JString ''hi'', timestamp = ''t1''\<rparr>,
      \<lparr>role = Assistant, content = JString ''hello'', timestamp = ''t2''\<rparr>]"

definition plain_query :: string where
  "plain_query = ''What is a?''"

definition marked_query :: string where
  "marked_query = ''Summarise the answer to Question: 3''"

section \<open>Properties\<close>

subsection \<open>The answering engine on concrete inputs\<close>

lemma demo_ok:
  "fst (get_response (demo_services [demo_match] (Choice (JString ''Paris''))) ''capital?'' []) =
     Inr (JString ''Paris'', [\<lparr>si_source = ''a.pdf'', excerpt = ''Paris is the capital....'',
                       relevance_score = 1\<rparr>])"
  by (simp add: get_response_def retrieve_context_def generate_embeddings_def
      demo_services_def demo_match_def context_of_def call_llm_api_def Let_def)

lemma demo_fail:
  "fst (get_response (demo_services [demo_match] (RequestFailed ''timeout'' None)) ''capital?'' []) =
     Inl (Exception ''Error generating response: Sarvam AI API error: timeout'')"
  by (simp add: get_response_def retrieve_context_def generate_embeddings_def
      demo_services_def demo_match_def context_of_def call_llm_api_def Let_def)

subsection \<open>No match in the index\<close>

text \<open>
  Claim C4. When the query to the vector index returns no match, \<open>get_response\<close>
  returns the fixed answer with an empty list of sources; it raises nothing and
  posts no prompt to the generation backend.
\<close>

theorem get_response_no_matches:
  assumes "encode sv [query] = Inr (e # es)" and "index_query sv e 5 = Inr []"
  shows "get_response sv query history = (Inr (JString fallback_answer, []), [])"
  using assms by (simp add: get_response_def retrieve_context_def generate_embeddings_def)

theorem get_response_no_matches_witness:
  "encode (demo_services [] UnexpectedFormat) [''q''] = Inr [[0]] \<and>
   index_query (demo_services [] UnexpectedFormat) [0] 5 = Inr [] \<and>
   get_response (demo_services [] UnexpectedFormat) ''q'' [] =
     (Inr (JString fallback_answer, []), [])"
proof -
  have a: "encode (demo_services [] UnexpectedFormat) [''q''] = Inr ([0] # [])"
    by (simp add: demo_services_def)
  have b: "index_query (demo_services [] UnexpectedFormat) [0] 5 = Inr []"
    by (simp add: demo_services_def)
  from get_response_no_matches [OF a b, of "[]"] a b show ?thesis by simp
qed

subsection \<open>The turns of a chat session\<close>

lemma chat_sessions_other:
  "other \<noteq> resolve_session_id msg uuid \<Longrightarrow>
   chat_sessions (snd (chat sv st msg uuid t1 t2)) other = chat_sessions st other"
  by (auto simp: chat_def Let_def split: option.splits sum.splits prod.splits)

lemma chat_ok:
  assumes "fst (get_response sv (cm_message msg)
             (snd (get_chat_history st (resolve_session_id msg uuid)))) = Inr (response, sources)"
  shows "fst (chat sv st msg uuid t1 t2) =
           (case response_field sv response of
              Inr shown \<Rightarrow> Inr \<lparr>cr_response = shown, cr_sources = sources,
                                 cr_session_id = resolve_session_id msg uuid\<rparr>
            | Inl e \<Rightarrow> Inl (HTTPException 500 (''Error generating response: '' @ str_of e)))"
    and "snd (get_chat_history (snd (chat sv st msg uuid t1 t2)) (resolve_session_id msg uuid)) =
           snd (get_chat_history st (resolve_session_id msg uuid)) @
           [\<lparr>role = User, content = JString (cm_message msg), timestamp = t1\<rparr>,
            \<lparr>role = Assistant, content = response, timestamp = t2\<rparr>]"
  using assms
  by (auto simp: chat_def get_chat_history_def Let_def split: option.splits sum.splits prod.splits)

lemma chat_fail:
  assumes "fst (get_response sv (cm_message msg)
             (snd (get_chat_history st (resolve_session_id msg uuid)))) = Inl e"
  shows "fst (chat sv st msg uuid t1 t2) =
           Inl (HTTPException 500 (''Error generating response: '' @ str_of e))"
    and "snd (get_chat_history (snd (chat sv st msg uuid t1 t2)) (resolve_session_id msg uuid)) =
           snd (get_chat_history st (resolve_session_id msg uuid))"
    and "chat_sessions st (resolve_session_id msg uuid) = None \<Longrightarrow>
         chat_sessions (snd (chat sv st msg uuid t1 t2)) =
           (chat_sessions st)(resolve_session_id msg uuid \<mapsto> [])"
  using assms
  by (auto simp: chat_def get_chat_history_def Let_def split: option.splits sum.splits prod.splits)

text \<open>
  Claim C3, at an input where the code leaves it. The request \<open>capital?\<close> arrives on
  the session \<open>s1\<close>, which has no turns; the index returns one match; the generation
  backend answers with status 200 and a first choice whose content is \<open>null\<close>. The
  engine returns that content with the sources, \<open>chat\<close> appends the user turn and an
  assistant turn whose content is \<open>None\<close>, and building the response then raises the
  validation error, of text \<open>msg\<close>: the request ends in the HTTP error 500, and the
  session has the two turns.
\<close>

theorem chat_null_reply_error_and_two_turns:
  "fst (get_response (null_reply_services msg) (cm_message demo_msg) []) =
     Inr (JNull, [\<lparr>si_source = ''a.pdf'', excerpt = ''Paris is the capital....'',
                   relevance_score = 1\<rparr>]) \<and>
   snd (get_chat_history empty_state ''s1'') = [] \<and>
   fst (chat (null_reply_services msg) empty_state demo_msg ''u'' ''t1'' ''t2'') =
     Inl (HTTPException 500 (''Error generating response: '' @ msg)) \<and>
   snd (get_chat_history
          (snd (chat (null_reply_services msg) empty_state demo_msg ''u'' ''t1'' ''t2'')) ''s1'') =
     [\<lparr>role = User, content = JString ''capital?'', timestamp = ''t1''\<rparr>,
      \<lparr>role = Assistant, content = JNull, timestamp = ''t2''\<rparr>]"
  by (simp add: chat_def resolve_session_id_def get_chat_history_def response_field_def
      get_response_def retrieve_context_def generate_embeddings_def null_reply_services_def
      demo_services_def demo_match_def demo_msg_def empty_state_def context_of_def
      call_llm_api_def Let_def)

subsection \<open>A failed request on a new session\<close>

text \<open>
  Claim C10. A chat request whose session id (given, or made for it) is not in the
  session map, and for which the answering engine raises: the request raises the HTTP
  error, the map now holds the id with no turns, the number of sessions that the
  health endpoint reports is one more, and the history endpoint gives the empty list
  of turns for the id.
\<close>

theorem chat_failure_leaves_empty_session:
  assumes "sid = resolve_session_id msg uuid"
    and "chat_sessions st sid = None"
    and "finite (dom (chat_sessions st))"
    and "fst (get_response sv (cm_message msg) []) = Inl e"
    and "chat sv st msg uuid t_user t_assistant = (res, st')"
  shows "res = Inl (HTTPException 500 (''Error generating response: '' @ str_of e)) \<and>
         chat_sessions st' sid = Some [] \<and>
         active_sessions (health_check st') = active_sessions (health_check st) + 1 \<and>
         get_chat_history st' sid = (sid, [])"
proof -
  have r: "res = fst (chat sv st msg uuid t_user t_assistant)"
    and s: "st' = snd (chat sv st msg uuid t_user t_assistant)"
    using assms(5) by simp_all
  have h: "snd (get_chat_history st (resolve_session_id msg uuid)) = []"
    using assms(1,2) by (simp add: get_chat_history_def)
  have f: "fst (get_response sv (cm_message msg)
             (snd (get_chat_history st (resolve_session_id msg uuid)))) = Inl e"
    using assms(4) h by simp
  have m: "chat_sessions st' = (chat_sessions st)(sid \<mapsto> [])"
    unfolding s assms(1) using chat_fail(3) [OF f] assms(1,2) by simp
  have "sid \<notin> dom (chat_sessions st)" using assms(2) by (simp add: domIff)
  then have c: "card (dom (chat_sessions st')) = card (dom (chat_sessions st)) + 1"
    using assms(3) by (simp add: m)
  show ?thesis
    using chat_fail(1) [OF f] c by (simp add: r m health_check_def get_chat_history_def)
qed

theorem chat_failure_leaves_empty_session_witness:
  "chat_sessions empty_state ''s1'' = None \<and>
   finite (dom (chat_sessions empty_state)) \<and>
   fst (get_response (demo_services [demo_match] (RequestFailed ''timeout'' None))
          (cm_message demo_msg) []) =
     Inl (Exception ''Error generating response: Sarvam AI API error: timeout'') \<and>
   chat_sessions (snd (chat (demo_services [demo_match] (RequestFailed ''timeout'' None))
                         empty_state demo_msg ''u'' ''t1'' ''t2'')) ''s1'' = Some [] \<and>
   active_sessions (health_check empty_state) = 0 \<and>
   active_sessions (health_check
      (snd (chat (demo_services [demo_match] (RequestFailed ''timeout'' None))
              empty_state demo_msg ''u'' ''t1'' ''t2''))) = 1 \<and>
   get_chat_history (snd (chat (demo_services [demo_match] (RequestFailed ''timeout'' None))
                            empty_state demo_msg ''u'' ''t1'' ''t2'')) ''s1'' = (''s1'', [])"
proof -
  have sid: "''s1'' = resolve_session_id demo_msg ''u''"
    by (simp add: resolve_session_id_def demo_msg_def)
  have none: "chat_sessions empty_state ''s1'' = None" by (simp add: empty_state_def)
  have fin: "finite (dom (chat_sessions empty_state))" by (simp add: empty_state_def)
  have zero: "active_sessions (health_check empty_state) = 0"
    by (simp add: health_check_def empty_state_def)
  have f: "fst (get_response (demo_services [demo_match] (RequestFailed ''timeout'' None))
                  (cm_message demo_msg) []) =
             Inl (Exception ''Error generating response: Sarvam AI API error: timeout'')"
    using demo_fail by (simp add: demo_msg_def)
  from chat_failure_leaves_empty_session [OF sid none fin f surjective_pairing, of "''t1''" "''t2''"]
    none fin f zero
  show ?thesis by simp
qed

subsection \<open>Refused uploads\<close>

lemma save_files_rejects:
  assumes "\<forall>f\<in>set good. acceptable f \<and> saved sv job_id f" and "\<not> acceptable bad"
  shows "save_files sv job_id now (good @ bad # rest) fps d =
           (Inl (rejection bad), write_all job_id good d)"
  using assms
  by (induction good arbitrary: fps d)
    (auto simp: acceptable_def saved_def write_all_def rejection_def Let_def)

lemma save_files_raises:
  assumes "\<exists>f\<in>set fs. \<not> acceptable f"
  shows "isl (fst (save_files sv job_id now fs fps d))"
  using assms
proof (induction fs arbitrary: fps d)
  case Nil
  then show ?case by simp
next
  case (Cons f fs)
  show ?case
  proof (cases "acceptable f")
    case False
    then show ?thesis by (auto simp: acceptable_def)
  next
    case True
    with Cons.prems have "\<exists>g\<in>set fs. \<not> acceptable g" by auto
    from Cons.IH [OF this] True show ?thesis
      by (cases "disk_write sv (path_join UPLOAD_DIR (job_id @ ''_'' @ uf_filename f)) (uf_content f)")
        (simp_all add: acceptable_def Let_def)
  qed
qed

lemma upload_files_no_job:
  "isl (fst (upload_files sv st fs job_id now)) \<Longrightarrow>
   job_status (snd (upload_files sv st fs job_id now)) = job_status st"
  by (auto simp: upload_files_def split: prod.splits sum.splits)

text \<open>
  Claim C7, as the code has it. A batch of more than 15 files is refused with the
  state as it was: no file written, no job made. A batch with a file that is no PDF
  or is too large makes the request raise, and no job is made. In a batch of at most
  15 files where every file before the first such file is saved without an error of
  the file system, the request is refused with the error of that file and no job made;
  the files before that file have been written to the disk by then, and that file and
  the files after it have not.
\<close>

theorem upload_rejections:
  "(15 < length fs \<longrightarrow>
      upload_files sv st fs job_id now = (Inl (HTTPException 400 ''Maximum 15 files allowed''), st)) \<and>
   ((\<exists>f\<in>set fs. \<not> acceptable f) \<longrightarrow>
      isl (fst (upload_files sv st fs job_id now)) \<and>
      job_status (snd (upload_files sv st fs job_id now)) = job_status st) \<and>
   (length (good @ bad # rest) \<le> 15 \<and> (\<forall>f\<in>set good. acceptable f \<and> saved sv job_id f) \<and>
    \<not> acceptable bad \<longrightarrow>
      upload_files sv st (good @ bad # rest) job_id now =
        (Inl (rejection bad), st\<lparr>disk := write_all job_id good (disk st)\<rparr>))"
proof -
  have 1: "15 < length fs \<longrightarrow>
      upload_files sv st fs job_id now = (Inl (HTTPException 400 ''Maximum 15 files allowed''), st)"
    by (simp add: upload_files_def)
  have 2: "isl (fst (upload_files sv st fs job_id now)) \<and>
      job_status (snd (upload_files sv st fs job_id now)) = job_status st"
    if "\<exists>f\<in>set fs. \<not> acceptable f"
  proof -
    from save_files_raises [OF that, of sv job_id now "[]" "disk st"]
    have "isl (fst (upload_files sv st fs job_id now))"
      by (auto simp: upload_files_def split: prod.splits sum.splits)
    then show ?thesis using upload_files_no_job by blast
  qed
  have 3: "length (good @ bad # rest) \<le> 15 \<and> (\<forall>f\<in>set good. acceptable f \<and> saved sv job_id f) \<and>
    \<not> acceptable bad \<longrightarrow>
      upload_files sv st (good @ bad # rest) job_id now =
        (Inl (rejection bad), st\<lparr>disk := write_all job_id good (disk st)\<rparr>)"
    using save_files_rejects [of good sv job_id bad now rest "[]" "disk st"]
    by (auto simp: upload_files_def)
  from 1 2 3 show ?thesis by blast
qed

lemma demo_saved: "saved (demo_services [] UnexpectedFormat) ''j'' pdf_a"
  by code_simp

lemma demo_write_a:
  "disk_write (demo_services [] UnexpectedFormat) ''uploads/j_a.pdf'' [1, 2, 3] = Written"
  by code_simp

lemma demo_write_sub:
  "disk_write (demo_services [] UnexpectedFormat) ''uploads/j_sub/x.pdf'' [5] =
     OpenFailed (''[Errno 2] No such file or directory: '' @
                 [CHR 0x27] @ ''uploads/j_sub/x.pdf'' @ [CHR 0x27])"
  by code_simp

lemma demo_sub:
  "upload_files (demo_services [] UnexpectedFormat) empty_state [sub_pdf, txt_b] ''j'' (\<lambda>k. ''t'') =
     (Inl (OtherError (''[Errno 2] No such file or directory: '' @
                        [CHR 0x27] @ ''uploads/j_sub/x.pdf'' @ [CHR 0x27])), empty_state)"
  by (simp add: upload_files_def sub_pdf_def txt_b_def empty_state_def endswith_def
      path_join_def UPLOAD_DIR_def demo_write_sub)

theorem upload_rejections_witness:
  "15 < length (replicate 16 pdf_a) \<and>
   upload_files (demo_services [] UnexpectedFormat) empty_state (replicate 16 pdf_a) ''j''
       (\<lambda>k. ''t'') =
     (Inl (HTTPException 400 ''Maximum 15 files allowed''), empty_state) \<and>
   txt_b \<in> set [sub_pdf, txt_b] \<and> \<not> acceptable txt_b \<and>
   upload_files (demo_services [] UnexpectedFormat) empty_state [sub_pdf, txt_b] ''j''
       (\<lambda>k. ''t'') =
     (Inl (OtherError (''[Errno 2] No such file or directory: '' @
                        [CHR 0x27] @ ''uploads/j_sub/x.pdf'' @ [CHR 0x27])),
      empty_state) \<and>
   length ([pdf_a] @ txt_b # [pdf_a]) \<le> 15 \<and> acceptable pdf_a \<and>
   saved (demo_services [] UnexpectedFormat) ''j'' pdf_a \<and>
   upload_files (demo_services [] UnexpectedFormat) empty_state ([pdf_a] @ txt_b # [pdf_a]) ''j''
       (\<lambda>k. ''t'') =
     (Inl (HTTPException 400 ''Only PDF files allowed: b.txt''),
      empty_state\<lparr>disk := write_all ''j'' [pdf_a] (disk empty_state)\<rparr>)"
proof -
  have a: "acceptable pdf_a" by (simp add: acceptable_def pdf_a_def endswith_def)
  have b: "\<not> acceptable txt_b" by (simp add: acceptable_def txt_b_def endswith_def)
  have r: "rejection txt_b = HTTPException 400 ''Only PDF files allowed: b.txt''"
    by (simp add: rejection_def txt_b_def endswith_def)
  note u = upload_rejections [where sv = "demo_services [] UnexpectedFormat"
      and st = empty_state and job_id = "''j''" and now = "\<lambda>k. ''t''"
      and good = "[pdf_a]" and bad = txt_b and rest = "[pdf_a]"]
  from u [where fs = "replicate 16 pdf_a"] u [where fs = "[sub_pdf, txt_b]"]
    a b r demo_saved demo_sub
  show ?thesis by simp
qed

text \<open>
  The claim as the specification states it fails: the upload of a PDF followed by a
  text file is refused, and the PDF is on the disk after the refusal.
\<close>

theorem upload_rejection_counterexample:
  "fst (upload_files (demo_services [] UnexpectedFormat) empty_state [pdf_a, txt_b] ''j''
          (\<lambda>k. ''t'')) =
     Inl (HTTPException 400 ''Only PDF files allowed: b.txt'') \<and>
   disk empty_state ''uploads/j_a.pdf'' = None \<and>
   disk (snd (upload_files (demo_services [] UnexpectedFormat) empty_state [pdf_a, txt_b] ''j''
                (\<lambda>k. ''t''))) ''uploads/j_a.pdf'' =
     Some [1, 2, 3]"
  by (simp add: upload_files_def pdf_a_def txt_b_def empty_state_def endswith_def
      path_join_def UPLOAD_DIR_def demo_write_a)

subsection \<open>Decimal numbers\<close>

lemma of_char_digit: "d < 10 \<Longrightarrow> of_char (digit_char d) = (48 + d :: nat)"
  by (simp add: digit_char_def)

lemma digit_char_inj:
  assumes "a < 10" and "b < 10" and "digit_char a = digit_char b"
  shows "a = b"
proof -
  have "(of_char (digit_char a) :: nat) = of_char (digit_char b)" using assms(3) by simp
  then have "48 + a = 48 + b" by (simp only: of_char_digit [OF assms(1)] of_char_digit [OF assms(2)])
  then show ?thesis by simp
qed

lemma digit_char_not_underscore:
  assumes "d < 10"
  shows "digit_char d \<noteq> CHR ''_''"
proof
  assume "digit_char d = CHR ''_''"
  then have "(of_char (digit_char d) :: nat) = of_char CHR ''_''" by simp
  then have "48 + d = (95 :: nat)" by (simp only: of_char_digit [OF assms]) simp
  with assms show False by simp
qed

lemma str_nat_not_empty: "str_nat n \<noteq> []"
  by (subst str_nat.simps) simp

lemma str_nat_no_underscore: "CHR ''_'' \<notin> set (str_nat n)"
proof (induction n rule: str_nat.induct)
  case (1 n)
  show ?case
  proof (cases "n < 10")
    case True
    then show ?thesis
      using digit_char_not_underscore [of n] by (subst str_nat.simps) auto
  next
    case False
    have "n mod 10 < 10" by simp
    then have "digit_char (n mod 10) \<noteq> CHR ''_''" by (rule digit_char_not_underscore)
    with False 1 show ?thesis by (subst str_nat.simps) auto
  qed
qed

lemma str_nat_inj: "str_nat n = str_nat m \<Longrightarrow> n = m"
proof (induction n arbitrary: m rule: str_nat.induct)
  case (1 n)
  show ?case
  proof (cases "n < 10")
    case True
    note n = this
    show ?thesis
    proof (cases "m < 10")
      case True
      from n True 1(2) have "digit_char n = digit_char m"
        by (simp add: str_nat.simps [of n] str_nat.simps [of m])
      with n True show ?thesis by (rule digit_char_inj)
    next
      case False
      from n False 1(2) have "[digit_char n] = str_nat (m div 10) @ [digit_char (m mod 10)]"
        by (simp add: str_nat.simps [of n] str_nat.simps [of m])
      then have "str_nat (m div 10) = []" by simp
      with str_nat_not_empty show ?thesis by blast
    qed
  next
    case False
    note n = this
    show ?thesis
    proof (cases "m < 10")
      case True
      from n True 1(2) have "str_nat (n div 10) @ [digit_char (n mod 10)] = [digit_char m]"
        by (simp add: str_nat.simps [of n] str_nat.simps [of m])
      then have "str_nat (n div 10) = []" by simp
      with str_nat_not_empty show ?thesis by blast
    next
      case False
      from n False 1(2) have
        "str_nat (n div 10) @ [digit_char (n mod 10)] = str_nat (m div 10) @ [digit_char (m mod 10)]"
        by (simp add: str_nat.simps [of n] str_nat.simps [of m])
      then have eq: "str_nat (n div 10) = str_nat (m div 10)"
        and d: "digit_char (n mod 10) = digit_char (m mod 10)"
        by simp_all
      from 1(1) [OF n eq] have q: "n div 10 = m div 10" .
      have "n mod 10 < 10" and "m mod 10 < 10" by simp_all
      then have r: "n mod 10 = m mod 10" using d by (rule digit_char_inj)
      have "n = 10 * (n div 10) + n mod 10" by simp
      also have "\<dots> = 10 * (m div 10) + m mod 10" by (simp only: q r)
      also have "\<dots> = m" by simp
      finally show ?thesis .
    qed
  qed
qed

lemma last_field_eq:
  assumes "CHR ''_'' \<notin> set x" and "CHR ''_'' \<notin> set y"
    and "a @ CHR ''_'' # x = b @ CHR ''_'' # y"
  shows "x = y"
proof -
  from assms(3) have "rev (a @ CHR ''_'' # x) = rev (b @ CHR ''_'' # y)" by simp
  then have "rev x @ CHR ''_'' # rev a = rev y @ CHR ''_'' # rev b" by simp
  then have "takeWhile (\<lambda>c. c \<noteq> CHR ''_'') (rev x @ CHR ''_'' # rev a) =
             takeWhile (\<lambda>c. c \<noteq> CHR ''_'') (rev y @ CHR ''_'' # rev b)" by simp
  moreover have "takeWhile (\<lambda>c. c \<noteq> CHR ''_'') (rev x @ CHR ''_'' # rev a) = rev x"
    using assms(1) by (subst takeWhile_append2) auto
  moreover have "takeWhile (\<lambda>c. c \<noteq> CHR ''_'') (rev y @ CHR ''_'' # rev b) = rev y"
    using assms(2) by (subst takeWhile_append2) auto
  ultimately show ?thesis by simp
qed

subsection \<open>The records written to the index\<close>

lemma length_prepare_vectors:
  "length (prepare_vectors job_id chunks embeddings) = min (length chunks) (length embeddings)"
  by (simp add: prepare_vectors_def)

lemma nth_prepare_vectors:
  assumes "i < length (prepare_vectors job_id chunks embeddings)"
  shows "prepare_vectors job_id chunks embeddings ! i =
           \<lparr>vec_id = job_id @ ''_'' @ source (metadata (chunks ! i)) @ ''_'' @ str_nat i,
            vec_values = embeddings ! i,
            vec_metadata = \<lparr>vm_text = chunk_text (chunks ! i),
                            vm_source = source (metadata (chunks ! i)),
                            vm_chunk_id = chunk_id (metadata (chunks ! i)), vm_job_id = job_id\<rparr>\<rparr>"
  using assms by (simp add: prepare_vectors_def nth_enumerate_eq)

lemma distinct_vec_ids: "distinct (map vec_id (prepare_vectors job_id chunks embeddings))"
proof -
  let ?vs = "prepare_vectors job_id chunks embeddings"
  have "i = j" if "i < length ?vs" "j < length ?vs" "vec_id (?vs ! i) = vec_id (?vs ! j)" for i j
  proof -
    from that have "(job_id @ ''_'' @ source (metadata (chunks ! i))) @ CHR ''_'' # str_nat i =
                    (job_id @ ''_'' @ source (metadata (chunks ! j))) @ CHR ''_'' # str_nat j"
      by (simp add: nth_prepare_vectors)
    then have "str_nat i = str_nat j"
      by (rule last_field_eq [OF str_nat_no_underscore str_nat_no_underscore])
    then show ?thesis by (rule str_nat_inj)
  qed
  then have "\<forall>i j. i < length ?vs \<and> j < length ?vs \<and> i \<noteq> j \<longrightarrow>
      vec_id (?vs ! i) \<noteq> vec_id (?vs ! j)"
    by blast
  then show ?thesis unfolding distinct_conv_nth by simp
qed

lemma concat_batches: "0 < n \<Longrightarrow> concat (batches n vs) = vs"
proof (induction n vs rule: batches.induct)
  case (1 n vs)
  show ?case
  proof (cases "vs = []")
    case True
    then show ?thesis by (subst batches.simps) simp
  next
    case False
    with 1 have "concat (batches n (drop n vs)) = drop n vs" by simp
    with False 1(2) show ?thesis by (subst batches.simps) simp
  qed
qed

lemma upsert_batches_all:
  "fst (upsert_batches sv bs written) = None \<Longrightarrow>
   snd (upsert_batches sv bs written) = written @ concat bs"
  by (induction bs arbitrary: written) (simp_all split: option.splits)

lemma upsert_batches_some:
  "\<exists>k. snd (upsert_batches sv bs written) = written @ take k (concat bs)"
proof (induction bs arbitrary: written)
  case Nil
  show ?case by simp
next
  case (Cons b bs)
  show ?case
  proof (cases "index_upsert sv b")
    case (Some msg)
    then have "snd (upsert_batches sv (b # bs) written) = written @ take 0 (concat (b # bs))"
      by simp
    then show ?thesis by (rule exI)
  next
    case None
    from Cons [of "written @ b"] obtain k where
      k: "snd (upsert_batches sv bs (written @ b)) = (written @ b) @ take k (concat bs)" ..
    have "snd (upsert_batches sv (b # bs) written) =
        written @ take (length b + k) (concat (b # bs))"
      by (simp add: None k)
    then show ?thesis by (rule exI)
  qed
qed

lemma nth_create_chunks:
  assumes "j < length (create_chunks dp txt src)"
  shows "chunk_id (metadata (create_chunks dp txt src ! j)) = j"
    and "source (metadata (create_chunks dp txt src ! j)) = src"
  using assms by (simp_all add: create_chunks_def Let_def nth_enumerate_eq)

text \<open>
  Claim C8, as the code has it. The records that \<open>store_embeddings\<close> writes are the
  prepared vectors, in order, up to the first batch whose upsert raises (all of them
  when it returns). The id of the record at position \<open>i\<close> of the run is the job id,
  the source of its chunk and \<open>i\<close>, joined by underscores: \<open>i\<close> is the position in the
  list of all chunks of the run, not the chunk's index within its document. The
  metadata of the record holds the text, the source and the \<open>chunk_id\<close> of its chunk and
  the job id; the \<open>chunk_id\<close> that \<open>create_chunks\<close> gives a chunk is its index within
  the document, and its source the name of the document. The ids of the records of a run
  are distinct.
\<close>

theorem record_ids:
  assumes "encode sv (map chunk_text chunks) = Inr embeddings"
    and "store_embeddings sv written chunks job_id = (res, written')"
    and "vs = prepare_vectors job_id chunks embeddings"
  shows "(\<exists>k. written' = written @ take k vs) \<and>
         (res = Inr () \<longrightarrow> written' = written @ vs) \<and>
         (\<forall>i<length vs. vec_id (vs ! i) =
            job_id @ ''_'' @ source (metadata (chunks ! i)) @ ''_'' @ str_nat i) \<and>
         (\<forall>i<length vs. vec_metadata (vs ! i) =
            \<lparr>vm_text = chunk_text (chunks ! i), vm_source = source (metadata (chunks ! i)),
             vm_chunk_id = chunk_id (metadata (chunks ! i)), vm_job_id = job_id\<rparr>) \<and>
         (\<forall>j<length (create_chunks dp txt src).
            chunk_id (metadata (create_chunks dp txt src ! j)) = j \<and>
            source (metadata (create_chunks dp txt src ! j)) = src) \<and>
         distinct (map vec_id vs)"
proof -
  let ?u = "upsert_batches sv (batches 100 vs) written"
  have c: "concat (batches 100 vs) = vs" by (rule concat_batches) simp
  have w: "written' = snd ?u"
    using assms by (auto simp: store_embeddings_def generate_embeddings_def split: prod.splits option.splits)
  have r: "res = Inr () \<Longrightarrow> fst ?u = None"
    using assms by (auto simp: store_embeddings_def generate_embeddings_def split: prod.splits option.splits)
  have 1: "\<exists>k. written' = written @ take k vs"
    using upsert_batches_some [of sv "batches 100 vs" written] by (simp only: w c)
  have 2: "res = Inr () \<longrightarrow> written' = written @ vs"
    using upsert_batches_all [of sv "batches 100 vs" written] r by (simp only: w c) blast
  have 3: "\<forall>i<length vs. vec_id (vs ! i) =
            job_id @ ''_'' @ source (metadata (chunks ! i)) @ ''_'' @ str_nat i"
    unfolding assms(3) by (simp add: nth_prepare_vectors)
  have 4: "distinct (map vec_id vs)" unfolding assms(3) by (rule distinct_vec_ids)
  have 5: "\<forall>i<length vs. vec_metadata (vs ! i) =
            \<lparr>vm_text = chunk_text (chunks ! i), vm_source = source (metadata (chunks ! i)),
             vm_chunk_id = chunk_id (metadata (chunks ! i)), vm_job_id = job_id\<rparr>"
    unfolding assms(3) by (simp add: nth_prepare_vectors)
  have 6: "\<forall>j<length (create_chunks dp txt src).
            chunk_id (metadata (create_chunks dp txt src ! j)) = j \<and>
            source (metadata (create_chunks dp txt src ! j)) = src"
    by (simp add: nth_create_chunks)
  show ?thesis
    by (rule conjI [OF 1 conjI [OF 2 conjI [OF 3 conjI [OF 5 conjI [OF 6 4]]]]])
qed

lemma demo_store:
  "store_embeddings (demo_services [] UnexpectedFormat) [] demo_chunks ''j'' =
     (Inr (), prepare_vectors ''j'' demo_chunks [[0], [0]])"
  by code_simp

lemma demo_ids:
  "map vec_id (prepare_vectors ''j'' demo_chunks [[0], [0]]) = [''j_a.pdf_0'', ''j_b.pdf_1'']"
  by code_simp

lemma demo_metadata:
  "map vec_metadata (prepare_vectors ''j'' demo_chunks [[0], [0]]) =
     [\<lparr>vm_text = ''x'', vm_source = ''a.pdf'', vm_chunk_id = 0, vm_job_id = ''j''\<rparr>,
      \<lparr>vm_text = ''y'', vm_source = ''b.pdf'', vm_chunk_id = 0, vm_job_id = ''j''\<rparr>]"
  by code_simp

lemma demo_chunk_ids:
  "map (\<lambda>c. (source (metadata c), chunk_id (metadata c)))
     (create_chunks demo_processor ''y'' ''b.pdf'') = [(''b.pdf'', 0)]"
  by code_simp

theorem record_ids_witness:
  "encode (demo_services [] UnexpectedFormat) (map chunk_text demo_chunks) = Inr [[0], [0]] \<and>
   store_embeddings (demo_services [] UnexpectedFormat) [] demo_chunks ''j'' =
     (Inr (), prepare_vectors ''j'' demo_chunks [[0], [0]]) \<and>
   map vec_id (prepare_vectors ''j'' demo_chunks [[0], [0]]) = [''j_a.pdf_0'', ''j_b.pdf_1''] \<and>
   map vec_metadata (prepare_vectors ''j'' demo_chunks [[0], [0]]) =
     [\<lparr>vm_text = ''x'', vm_source = ''a.pdf'', vm_chunk_id = 0, vm_job_id = ''j''\<rparr>,
      \<lparr>vm_text = ''y'', vm_source = ''b.pdf'', vm_chunk_id = 0, vm_job_id = ''j''\<rparr>] \<and>
   map (\<lambda>c. (source (metadata c), chunk_id (metadata c)))
     (create_chunks demo_processor ''y'' ''b.pdf'') = [(''b.pdf'', 0)] \<and>
   distinct (map vec_id (prepare_vectors ''j'' demo_chunks [[0], [0]]))"
proof -
  have a: "encode (demo_services [] UnexpectedFormat) (map chunk_text demo_chunks) = Inr [[0], [0]]"
    by code_simp
  from record_ids [OF a demo_store refl, of demo_processor "''y''" "''b.pdf''"]
    a demo_store demo_ids demo_metadata demo_chunk_ids
  show ?thesis by simp
qed

text \<open>
  The claim as the specification states it fails: in the run on two files of one chunk
  each, the record of the second file has the chunk index 0 and an id that ends in 1.
\<close>

theorem record_id_counterexample:
  "vm_source (vec_metadata (index (last demo_run) ! 1)) = ''b.pdf'' \<and>
   vm_chunk_id (vec_metadata (index (last demo_run) ! 1)) = 0 \<and>
   vec_id (index (last demo_run) ! 1) = ''j_b.pdf_1'' \<and>
   vec_id (index (last demo_run) ! 1) \<noteq> ''j'' @ ''_'' @ ''b.pdf'' @ ''_'' @ str_nat 0"
  by code_simp

subsection \<open>The ingestion task\<close>

lemma process_files_frame:
  "process_files dp sv n idx fs acc s = (r, s', tr) \<Longrightarrow>
   \<forall>x\<in>set (s' # tr). index x = index s \<and> processed x = processed s \<and>
      status (job x) = status (job s)"
proof (induction fs arbitrary: idx acc s r s' tr)
  case Nil
  then show ?case by simp
next
  case (Cons f fs)
  show ?case
  proof (cases "process_pdf dp sv (path f) (filename f)")
    case (Inl e)
    with Cons.prems show ?thesis by (auto simp: Let_def)
  next
    case (Inr cs)
    let ?s3 = "s\<lparr>job := (job s)\<lparr>progress := int (idx * 50 div n), message := ''Processing '' @ filename f,
                 files_processed := idx + 1\<rparr>\<rparr>"
    obtain r2 s2 tr2 where p: "process_files dp sv n (idx + 1) fs (acc @ cs) ?s3 = (r2, s2, tr2)"
      by (metis prod_cases3)
    from Cons.IH [OF p] have ih: "\<forall>x\<in>set (s2 # tr2). index x = index s \<and> processed x = processed s \<and>
      status (job x) = status (job s)" by simp
    from Cons.prems Inr p have "s' = s2" and "set tr \<subseteq> set tr2 \<union> {x. index x = index s \<and> processed x = processed s \<and>
      status (job x) = status (job s)}"
      by (auto simp: Let_def)
    with ih show ?thesis by auto
  qed
qed

lemma process_files_last:
  "process_files dp sv n idx fs acc s = (r, s', tr) \<Longrightarrow> s' = last (s # tr)"
proof (induction fs arbitrary: idx acc s r s' tr)
  case Nil
  then show ?case by simp
next
  case (Cons f fs)
  show ?case
  proof (cases "process_pdf dp sv (path f) (filename f)")
    case (Inl e)
    with Cons.prems show ?thesis by (auto simp: Let_def)
  next
    case (Inr cs)
    let ?s3 = "s\<lparr>job := (job s)\<lparr>progress := int (idx * 50 div n), message := ''Processing '' @ filename f,
                 files_processed := idx + 1\<rparr>\<rparr>"
    obtain r2 s2 tr2 where p: "process_files dp sv n (idx + 1) fs (acc @ cs) ?s3 = (r2, s2, tr2)"
      by (metis prod_cases3)
    from Cons.IH [OF p] have ih: "s2 = last (?s3 # tr2)" .
    from Cons.prems Inr p have "s' = s2" and "\<exists>a b. tr = a # b # ?s3 # tr2"
      by (auto simp: Let_def)
    with ih show ?thesis by auto
  qed
qed

lemma progress_step: "idx < n \<Longrightarrow> idx * 50 div n \<le> Suc idx * 50 div n \<and> idx * 50 div n \<le> (50::nat)"
proof
  show "idx * 50 div n \<le> Suc idx * 50 div n" by (rule div_le_mono) simp
  assume "idx < n"
  then have "idx * 50 \<le> 50 * n" by simp
  then have "idx * 50 div n \<le> 50 * n div n" by (rule div_le_mono)
  also have "\<dots> \<le> 50" by simp
  finally show "idx * 50 div n \<le> 50" .
qed

lemma process_files_progress:
  assumes "process_files dp sv n idx fs acc s = (r, s', tr)"
    and "idx + length fs = n"
    and "progress (job s) \<le> int (idx * 50 div n)" and "progress (job s) \<le> 50"
  shows "sorted (map (\<lambda>x. progress (job x)) (s # tr)) \<and> (\<forall>x\<in>set (s # tr). progress (job x) \<le> 50)"
  using assms
proof (induction fs arbitrary: idx acc s r s' tr)
  case Nil
  then show ?case by simp
next
  case (Cons f fs)
  let ?p = "int (idx * 50 div n)"
  from Cons.prems(2) have lt: "idx < n" by simp
  from progress_step [OF lt] have p50: "?p \<le> 50" and pn: "?p \<le> int (Suc idx * 50 div n)"
    by simp_all
  show ?case
  proof (cases "process_pdf dp sv (path f) (filename f)")
    case (Inl e)
    with Cons.prems p50 show ?thesis by (auto simp: Let_def)
  next
    case (Inr cs)
    let ?s3 = "s\<lparr>job := (job s)\<lparr>progress := ?p, message := ''Processing '' @ filename f,
                 files_processed := idx + 1\<rparr>\<rparr>"
    obtain r2 s2 tr2 where p: "process_files dp sv n (idx + 1) fs (acc @ cs) ?s3 = (r2, s2, tr2)"
      by (metis prod_cases3)
    have "sorted (map (\<lambda>x. progress (job x)) (?s3 # tr2)) \<and> (\<forall>x\<in>set (?s3 # tr2). progress (job x) \<le> 50)"
      using Cons.prems(2) p50 pn by (intro Cons.IH [OF p]) simp_all
    then have ih: "sorted (map (\<lambda>x. progress (job x)) tr2)" "\<forall>x\<in>set tr2. ?p \<le> progress (job x)"
        "\<forall>x\<in>set tr2. progress (job x) \<le> 50"
      by simp_all
    from Cons.prems(1) Inr p have tr: "tr = s\<lparr>job := (job s)\<lparr>progress := ?p\<rparr>\<rparr> #
         s\<lparr>job := (job s)\<lparr>progress := ?p, message := ''Processing '' @ filename f\<rparr>\<rparr> # ?s3 # tr2"
      by (auto simp: Let_def)
    show ?thesis unfolding tr using ih Cons.prems(3) p50 Cons.prems(4) by auto
  qed
qed

lemma readable_chunks:
  "readable dp sv f \<Longrightarrow> process_pdf dp sv (path f) (filename f) = Inr (chunks_of dp sv f)"
  by (simp add: readable_def chunks_of_def split: sum.splits)

lemma not_readable: "process_pdf dp sv (path f) (filename f) = Inl e \<Longrightarrow> \<not> readable dp sv f"
  by (simp add: readable_def)

lemma process_files_ok:
  "\<forall>f\<in>set fs. readable dp sv f \<Longrightarrow>
   fst (process_files dp sv n idx fs acc s) = Inr (acc @ all_chunks_of dp sv fs)"
proof (induction fs arbitrary: idx acc s)
  case Nil
  then show ?case by (simp add: all_chunks_of_def)
next
  case (Cons f fs)
  then have "process_pdf dp sv (path f) (filename f) = Inr (chunks_of dp sv f)"
    by (simp add: readable_chunks)
  with Cons show ?case
    by (simp add: Let_def all_chunks_of_def case_prod_beta)
qed

lemma process_files_fail:
  assumes "\<forall>f\<in>set good. readable dp sv f"
    and "process_pdf dp sv (path bad) (filename bad) = Inl e"
  shows "fst (process_files dp sv n idx (good @ bad # rest) acc s) = Inl e"
  using assms(1)
proof (induction good arbitrary: idx acc s)
  case Nil
  then show ?case using assms(2) by (simp add: Let_def)
next
  case (Cons f fs)
  then have "process_pdf dp sv (path f) (filename f) = Inr (chunks_of dp sv f)"
    by (simp add: readable_chunks)
  with Cons show ?case
    by (simp add: Let_def case_prod_beta)
qed

lemma process_files_cases:
  "(\<forall>f\<in>set fs. readable dp sv f) \<or>
   (\<exists>good bad rest e. fs = good @ bad # rest \<and> (\<forall>f\<in>set good. readable dp sv f) \<and>
      process_pdf dp sv (path bad) (filename bad) = Inl e)"
proof (induction fs)
  case Nil
  then show ?case by simp
next
  case (Cons f fs)
  show ?case
  proof (cases "process_pdf dp sv (path f) (filename f)")
    case (Inl e)
    then have "f # fs = [] @ f # fs \<and> (\<forall>f\<in>set []. readable dp sv f) \<and>
      process_pdf dp sv (path f) (filename f) = Inl e" by simp
    then show ?thesis by blast
  next
    case (Inr cs)
    then have r: "readable dp sv f" by (simp add: readable_def)
    from Cons show ?thesis
    proof
      assume "\<forall>f\<in>set fs. readable dp sv f"
      with r show ?thesis by simp
    next
      assume "\<exists>good bad rest e. fs = good @ bad # rest \<and> (\<forall>f\<in>set good. readable dp sv f) \<and>
        process_pdf dp sv (path bad) (filename bad) = Inl e"
      then obtain good bad rest e where "fs = good @ bad # rest" "\<forall>f\<in>set good. readable dp sv f"
        "process_pdf dp sv (path bad) (filename bad) = Inl e" by blast
      with r have "f # fs = (f # good) @ bad # rest \<and> (\<forall>f\<in>set (f # good). readable dp sv f) \<and>
        process_pdf dp sv (path bad) (filename bad) = Inl e" by simp
      then show ?thesis by blast
    qed
  qed
qed

lemma task_failed_props:
  "map (\<lambda>x. status (job x)) (task_failed e s) = [Failed, Failed]"
  "map (\<lambda>x. progress (job x)) (task_failed e s) = [progress (job s), progress (job s)]"
  "message (job (last (task_failed e s))) = ''Error: '' @ str_of e"
  "status (job (last (task_failed e s))) = Failed"
  "task_failed e s \<noteq> []"
  by (simp_all add: task_failed_def Let_def)

lemma store_and_complete_fail:
  assumes "fst (store_embeddings sv (index s3) all job_id) = Inl e"
  shows "map (\<lambda>x. status (job x)) (store_and_complete sv job_id fps now all s3) =
           replicate 3 (status (job s3)) @ [Failed, Failed]"
    and "map (\<lambda>x. progress (job x)) (store_and_complete sv job_id fps now all s3) = replicate 5 60"
    and "message (job (last (store_and_complete sv job_id fps now all s3))) = ''Error: '' @ str_of e"
    and "status (job (last (store_and_complete sv job_id fps now all s3))) = Failed"
  using assms
  by (auto simp: store_and_complete_def task_failed_def Let_def numeral_3_eq_3 eval_nat_numeral
      split: prod.splits sum.splits)

lemma store_and_complete_ok_eq:
  assumes "store_embeddings sv (index s3) all job_id = (Inr u, written)"
  shows "store_and_complete sv job_id fps now all s3 =
     [s3\<lparr>job := (job s3)\<lparr>progress := 60\<rparr>\<rparr>,
      s3\<lparr>job := (job s3)\<lparr>progress := 60, message := ''Generating embeddings''\<rparr>\<rparr>,
      s3\<lparr>job := (job s3)\<lparr>progress := 60, message := ''Generating embeddings''\<rparr>,
         index := written\<rparr>,
      s3\<lparr>job := (job s3)\<lparr>progress := 60, message := ''Generating embeddings''\<rparr>,
         index := written,
         processed := (processed s3)(metadata_path job_id \<mapsto>
              \<lparr>md_job_id = job_id, md_files = fps, chunks_count = length all, processed_at = now\<rparr>)\<rparr>,
      s3\<lparr>job := (job s3)\<lparr>progress := 60, message := ''Generating embeddings'', status := Completed\<rparr>,
         index := written,
         processed := (processed s3)(metadata_path job_id \<mapsto>
              \<lparr>md_job_id = job_id, md_files = fps, chunks_count = length all, processed_at = now\<rparr>)\<rparr>,
      s3\<lparr>job := (job s3)\<lparr>progress := 100, message := ''Generating embeddings'', status := Completed\<rparr>,
         index := written,
         processed := (processed s3)(metadata_path job_id \<mapsto>
              \<lparr>md_job_id = job_id, md_files = fps, chunks_count = length all, processed_at = now\<rparr>)\<rparr>,
      s3\<lparr>job := (job s3)\<lparr>progress := 100, message := ''Processing completed successfully'',
            status := Completed\<rparr>,
         index := written,
         processed := (processed s3)(metadata_path job_id \<mapsto>
              \<lparr>md_job_id = job_id, md_files = fps, chunks_count = length all, processed_at = now\<rparr>)\<rparr>]"
  using assms by (simp add: store_and_complete_def Let_def metadata_path_def)

lemma store_and_complete_ok:
  assumes "fst (store_embeddings sv (index s3) all job_id) = Inr u"
    and "status (job s3) = Processing"
  shows "map (\<lambda>x. status (job x)) (store_and_complete sv job_id fps now all s3) =
           replicate 4 Processing @ [Completed, Completed, Completed]"
    and "map (\<lambda>x. progress (job x)) (store_and_complete sv job_id fps now all s3) =
           [60, 60, 60, 60, 60, 100, 100]"
    and "status (job (last (store_and_complete sv job_id fps now all s3))) = Completed"
    and "progress (job (last (store_and_complete sv job_id fps now all s3))) = 100"
    and "\<forall>x\<in>set (store_and_complete sv job_id fps now all s3). status (job x) = Completed \<longrightarrow>
           index x = snd (store_embeddings sv (index s3) all job_id) \<and>
           processed x = (processed s3)(metadata_path job_id \<mapsto>
              \<lparr>md_job_id = job_id, md_files = fps, chunks_count = length all, processed_at = now\<rparr>)"
proof -
  obtain written where w: "store_embeddings sv (index s3) all job_id = (Inr u, written)"
    using assms(1) by (metis prod.collapse)
  note eq = store_and_complete_ok_eq [OF w, of fps now]
  show "map (\<lambda>x. status (job x)) (store_and_complete sv job_id fps now all s3) =
           replicate 4 Processing @ [Completed, Completed, Completed]"
    by (simp add: eq assms(2) eval_nat_numeral)
  show "map (\<lambda>x. progress (job x)) (store_and_complete sv job_id fps now all s3) =
           [60, 60, 60, 60, 60, 100, 100]"
    by (simp add: eq)
  show "status (job (last (store_and_complete sv job_id fps now all s3))) = Completed"
    by (simp add: eq)
  show "progress (job (last (store_and_complete sv job_id fps now all s3))) = 100"
    by (simp add: eq)
  show "\<forall>x\<in>set (store_and_complete sv job_id fps now all s3). status (job x) = Completed \<longrightarrow>
           index x = snd (store_embeddings sv (index s3) all job_id) \<and>
           processed x = (processed s3)(metadata_path job_id \<mapsto>
              \<lparr>md_job_id = job_id, md_files = fps, chunks_count = length all, processed_at = now\<rparr>)"
    by (simp add: eq w assms(2))
qed

lemma store_embeddings_ok:
  assumes "fst (store_embeddings sv written chunks job_id) = Inr u"
  shows "\<exists>es. encode sv (map chunk_text chunks) = Inr es \<and>
           snd (store_embeddings sv written chunks job_id) =
             written @ prepare_vectors job_id chunks es"
proof (cases "encode sv (map chunk_text chunks)")
  case (Inl msg)
  with assms show ?thesis by (simp add: store_embeddings_def generate_embeddings_def)
next
  case (Inr es)
  let ?u = "upsert_batches sv (batches 100 (prepare_vectors job_id chunks es)) written"
  have c: "concat (batches 100 (prepare_vectors job_id chunks es)) = prepare_vectors job_id chunks es"
    by (rule concat_batches) simp
  from assms Inr have "fst ?u = None"
    by (auto simp: store_embeddings_def generate_embeddings_def split: prod.splits option.splits)
  then have "snd ?u = written @ prepare_vectors job_id chunks es"
    using upsert_batches_all [of sv "batches 100 (prepare_vectors job_id chunks es)" written]
    by (simp only: c)
  moreover have "snd (store_embeddings sv written chunks job_id) = snd ?u"
    using Inr by (auto simp: store_embeddings_def generate_embeddings_def split: prod.splits option.splits)
  ultimately show ?thesis using Inr by simp
qed

lemma sorted_le_last: "sorted xs \<Longrightarrow> x \<in> set xs \<Longrightarrow> x \<le> (last xs :: int)"
  by (induction xs) (auto split: if_splits)

lemma replicate_shape:
  "Pending # replicate a Processing @ replicate b Processing @ replicate (Suc m) fin =
   Pending # replicate (a + b) Processing @ replicate (Suc m) fin"
  by (simp add: replicate_add)

lemma map_eq_mem: "map f xs = ys \<Longrightarrow> x \<in> set xs \<Longrightarrow> f x \<in> set ys"
  by auto

lemma lifecycle_shapeI:
  assumes "xs = Pending # replicate (Suc k) Processing @ replicate (Suc m) fin"
    and "fin = Completed \<or> fin = Failed"
  shows "\<exists>k m fin. xs = Pending # replicate (Suc k) Processing @ replicate (Suc m) fin \<and>
           (fin = Completed \<or> fin = Failed)"
  using assms by blast

text \<open>
  Claim C9. A job that \<open>upload_files\<close> has admitted (15 files at most, status
  \<open>pending\<close>, progress 0), and the sequence \<open>run\<close> of the states of its task:
  \<^item> the status is \<open>pending\<close>, then \<open>processing\<close>, then to the end \<open>completed\<close> or
    \<open>failed\<close>;
  \<^item> the progress never decreases;
  \<^item> in every state with the status \<open>completed\<close>, every file has been read and
    chunked, the index holds a record for every chunk of every file, and the metadata
    file of the job has been written;
  \<^item> when \<open>process_pdf\<close> raises for a file, or \<open>store_embeddings\<close> raises (for
    the embedding or for an upsert), the last state has the status \<open>failed\<close> and the
    message \<open>Error:\<close> followed by the text of the exception;
  \<^item> when nothing raises, the last state has the status \<open>completed\<close> and the
    progress 100.
  The embedding model is taken to return one vector for each text.
\<close>

theorem ingestion_job_lifecycle:
  assumes len: "length file_paths \<le> 15"
    and st0: "status (job s0) = Pending"
    and pr0: "progress (job s0) = 0"
    and enc: "\<forall>texts es. encode sv texts = Inr es \<longrightarrow> length es = length texts"
    and run: "run = process_documents_task dp sv job_id file_paths now s0"
    and all: "all_chunks = all_chunks_of dp sv file_paths"
  shows "(\<exists>k m fin. map (\<lambda>x. status (job x)) run =
              Pending # replicate (Suc k) Processing @ replicate (Suc m) fin \<and>
            (fin = Completed \<or> fin = Failed)) \<and>
         sorted (map (\<lambda>x. progress (job x)) run) \<and>
         (\<forall>x\<in>set run. status (job x) = Completed \<longrightarrow>
            (\<forall>f\<in>set file_paths. readable dp sv f) \<and>
            (\<exists>es. encode sv (map chunk_text all_chunks) = Inr es \<and>
               index x = index s0 @ prepare_vectors job_id all_chunks es \<and>
               length (prepare_vectors job_id all_chunks es) = length all_chunks) \<and>
            processed x = (processed s0)(metadata_path job_id \<mapsto>
               \<lparr>md_job_id = job_id, md_files = file_paths,
                chunks_count = length all_chunks, processed_at = now\<rparr>)) \<and>
         (\<forall>good bad rest e.
            file_paths = good @ bad # rest \<and> (\<forall>f\<in>set good. readable dp sv f) \<and>
            process_pdf dp sv (path bad) (filename bad) = Inl e \<longrightarrow>
            status (job (last run)) = Failed \<and> message (job (last run)) = ''Error: '' @ str_of e) \<and>
         (\<forall>e. (\<forall>f\<in>set file_paths. readable dp sv f) \<and>
            fst (store_embeddings sv (index s0) all_chunks job_id) = Inl e \<longrightarrow>
            status (job (last run)) = Failed \<and> message (job (last run)) = ''Error: '' @ str_of e) \<and>
         ((\<forall>f\<in>set file_paths. readable dp sv f) \<and>
            fst (store_embeddings sv (index s0) all_chunks job_id) = Inr () \<longrightarrow>
            status (job (last run)) = Completed \<and> progress (job (last run)) = 100)"
proof -
  define s1 where "s1 = s0\<lparr>job := (job s0)\<lparr>status := Processing\<rparr>\<rparr>"
  define s2 where "s2 = s1\<lparr>job := (job s1)\<lparr>message := ''Extracting text from PDFs''\<rparr>\<rparr>"
  obtain r s3 tr where pf: "process_files dp sv (length file_paths) 0 file_paths [] s2 = (r, s3, tr)"
    by (metis prod_cases3)
  define rest where "rest = (case r of Inl e \<Rightarrow> task_failed e s3
     | Inr cs \<Rightarrow> store_and_complete sv job_id file_paths now cs s3)"
  have run_eq: "run = [s0, s1, s2] @ tr @ rest"
    unfolding run process_documents_task_def Let_def rest_def
    using pf by (simp add: s1_def s2_def split: sum.splits)
  have s2_props: "status (job s2) = Processing" "progress (job s2) = 0" "index s2 = index s0"
      "processed s2 = processed s0" "status (job s1) = Processing" "progress (job s1) = 0"
    by (simp_all add: s1_def s2_def pr0)
  from process_files_frame [OF pf] s2_props
  have frame: "\<forall>x\<in>set (s3 # tr). index x = index s0 \<and> processed x = processed s0 \<and>
      status (job x) = Processing" by simp
  have s3_last: "s3 = last (s2 # tr)" by (rule process_files_last [OF pf])
  have "sorted (map (\<lambda>x. progress (job x)) (s2 # tr)) \<and> (\<forall>x\<in>set (s2 # tr). progress (job x) \<le> 50)"
    by (rule process_files_progress [OF pf]) (simp_all add: s2_props)
  then have sorted_tr: "sorted (map (\<lambda>x. progress (job x)) (s2 # tr))"
    and le50: "\<forall>x\<in>set (s2 # tr). progress (job x) \<le> 50" by simp_all
  have ge0: "\<forall>x\<in>set tr. 0 \<le> progress (job x)"
    using sorted_tr s2_props(2) by simp
  have le_s3: "\<forall>x\<in>set (s2 # tr). progress (job x) \<le> progress (job s3)"
  proof
    fix x assume "x \<in> set (s2 # tr)"
    then have "progress (job x) \<in> set (map (\<lambda>x. progress (job x)) (s2 # tr))" by force
    from sorted_le_last [OF sorted_tr this]
    have "progress (job x) \<le> last (map (\<lambda>x. progress (job x)) (s2 # tr))" .
    also have "\<dots> = progress (job (last (s2 # tr)))" by (rule last_map) simp
    finally show "progress (job x) \<le> progress (job s3)" by (simp only: s3_last)
  qed
  have st_tr: "map (\<lambda>x. status (job x)) tr = replicate (length tr) Processing"
    using frame by (simp add: map_replicate_const [symmetric] cong: map_cong)
  have st_s3: "status (job s3) = Processing" and ix_s3: "index s3 = index s0"
    and pc_s3: "processed s3 = processed s0" using frame by simp_all
  have s3_50: "progress (job s3) \<le> 50" using le50 s3_last by (metis last_in_set list.discI)
  have head_st: "map (\<lambda>x. status (job x)) ([s0, s1, s2] @ tr) =
      Pending # replicate (2 + length tr) Processing"
    by (simp add: st0 s2_props st_tr)
  have head_sorted: "sorted (map (\<lambda>x. progress (job x)) ([s0, s1, s2] @ tr))"
    using sorted_tr by (simp add: pr0 s2_props ge0)
  have head_not_completed: "\<forall>x\<in>set ([s0, s1, s2] @ tr). status (job x) \<noteq> Completed"
    using frame by (auto simp: st0 s2_props)
  have readable_iff: "(\<forall>f\<in>set file_paths. readable dp sv f) \<longleftrightarrow> r = Inr all_chunks"
  proof
    assume "\<forall>f\<in>set file_paths. readable dp sv f"
    from process_files_ok [OF this, of "length file_paths" 0 "[]" s2] pf
    show "r = Inr all_chunks" by (simp add: all)
  next
    assume ok: "r = Inr all_chunks"
    from process_files_cases [of file_paths dp sv] show "\<forall>f\<in>set file_paths. readable dp sv f"
    proof
      assume "\<exists>good bad rest e. file_paths = good @ bad # rest \<and>
          (\<forall>f\<in>set good. readable dp sv f) \<and> process_pdf dp sv (path bad) (filename bad) = Inl e"
      then obtain good bad rest' e where d: "file_paths = good @ bad # rest'"
        and g: "\<forall>f\<in>set good. readable dp sv f"
        and b: "process_pdf dp sv (path bad) (filename bad) = Inl e" by blast
      from process_files_fail [OF g b, of "length file_paths" 0 rest' "[]" s2] pf d ok
      show ?thesis by simp
    qed
  qed
  have r_cases: "(\<exists>e. r = Inl e) \<or> r = Inr all_chunks"
  proof (cases r)
    case (Inl e) then show ?thesis by blast
  next
    case (Inr cs)
    from process_files_cases [of file_paths dp sv] show ?thesis
    proof
      assume "\<forall>f\<in>set file_paths. readable dp sv f"
      with readable_iff show ?thesis by simp
    next
      assume "\<exists>good bad rest e. file_paths = good @ bad # rest \<and>
          (\<forall>f\<in>set good. readable dp sv f) \<and> process_pdf dp sv (path bad) (filename bad) = Inl e"
      then obtain good bad rest' e where d: "file_paths = good @ bad # rest'"
        and g: "\<forall>f\<in>set good. readable dp sv f"
        and b: "process_pdf dp sv (path bad) (filename bad) = Inl e" by blast
      from process_files_fail [OF g b, of "length file_paths" 0 rest' "[]" s2] pf d
      show ?thesis by simp
    qed
  qed
  have last_run: "rest \<noteq> [] \<Longrightarrow> last run = last rest" by (simp add: run_eq)
  have run_st: "map (\<lambda>x. status (job x)) run =
      Pending # replicate (2 + length tr) Processing @ map (\<lambda>x. status (job x)) rest"
    using head_st by (simp add: run_eq)
  have run_sorted: "sorted (map (\<lambda>x. progress (job x)) run)"
    if "sorted (map (\<lambda>x. progress (job x)) rest)"
      and "\<forall>y\<in>set rest. progress (job s3) \<le> progress (job y)"
  proof -
    have "\<forall>x\<in>set ([s0, s1, s2] @ tr). \<forall>y\<in>set rest. progress (job x) \<le> progress (job y)"
    proof (intro ballI)
      fix x y assume x: "x \<in> set ([s0, s1, s2] @ tr)" and y: "y \<in> set rest"
      have "progress (job x) \<le> progress (job s3)"
        using x le_s3 pr0 s2_props(2,6) by auto
      with that(2) y show "progress (job x) \<le> progress (job y)" by force
    qed
    with head_sorted that(1) show ?thesis
      unfolding run_eq by (simp only: append_assoc [symmetric] map_append sorted_append) auto
  qed
  let ?A = "\<exists>k m fin. map (\<lambda>x. status (job x)) run =
              Pending # replicate (Suc k) Processing @ replicate (Suc m) fin \<and>
            (fin = Completed \<or> fin = Failed)"
  let ?B = "sorted (map (\<lambda>x. progress (job x)) run)"
  let ?C = "\<forall>x\<in>set run. status (job x) = Completed \<longrightarrow>
            (\<forall>f\<in>set file_paths. readable dp sv f) \<and>
            (\<exists>es. encode sv (map chunk_text all_chunks) = Inr es \<and>
               index x = index s0 @ prepare_vectors job_id all_chunks es \<and>
               length (prepare_vectors job_id all_chunks es) = length all_chunks) \<and>
            processed x = (processed s0)(metadata_path job_id \<mapsto>
               \<lparr>md_job_id = job_id, md_files = file_paths,
                chunks_count = length all_chunks, processed_at = now\<rparr>)"
  let ?D1 = "\<forall>good bad rest e.
            file_paths = good @ bad # rest \<and> (\<forall>f\<in>set good. readable dp sv f) \<and>
            process_pdf dp sv (path bad) (filename bad) = Inl e \<longrightarrow>
            status (job (last run)) = Failed \<and> message (job (last run)) = ''Error: '' @ str_of e"
  let ?D2 = "\<forall>e. (\<forall>f\<in>set file_paths. readable dp sv f) \<and>
            fst (store_embeddings sv (index s0) all_chunks job_id) = Inl e \<longrightarrow>
            status (job (last run)) = Failed \<and> message (job (last run)) = ''Error: '' @ str_of e"
  let ?D3 = "(\<forall>f\<in>set file_paths. readable dp sv f) \<and>
            fst (store_embeddings sv (index s0) all_chunks job_id) = Inr () \<longrightarrow>
            status (job (last run)) = Completed \<and> progress (job (last run)) = 100"
  have fail_first: "r = Inl e" if "file_paths = good @ bad # rest'"
      "\<forall>f\<in>set good. readable dp sv f" "process_pdf dp sv (path bad) (filename bad) = Inl e"
    for good bad rest' e
    using process_files_fail [OF that(2,3), of "length file_paths" 0 rest' "[]" s2] pf that(1)
    by simp
  from r_cases consider (files) e where "r = Inl e"
    | (store) e where "r = Inr all_chunks" "fst (store_embeddings sv (index s0) all_chunks job_id) = Inl e"
    | (ok) "r = Inr all_chunks" "fst (store_embeddings sv (index s0) all_chunks job_id) = Inr ()"
    by (metis (full_types) old.unit.exhaust sum.exhaust_sel sum.collapse(1))
  then show ?thesis
  proof cases
    case files
    then have rest: "rest = task_failed e s3" by (simp add: rest_def)
    have nr: "\<not> (\<forall>f\<in>set file_paths. readable dp sv f)" using files readable_iff by simp
    have "map (\<lambda>x. status (job x)) run =
        Pending # replicate (Suc (Suc (length tr))) Processing @ replicate (Suc (Suc 0)) Failed"
      by (simp add: run_st rest task_failed_props)
    then have A: ?A by (rule lifecycle_shapeI) simp
    have B: ?B by (rule run_sorted) (simp_all add: rest task_failed_def Let_def)
    have C: ?C using head_not_completed
      by (auto simp: run_eq rest task_failed_def Let_def)
    have l: "last run = last (task_failed e s3)"
      using last_run rest task_failed_props(5) by simp
    have D1: ?D1 using fail_first files by (auto simp: l task_failed_props)
    have D2: ?D2 using nr by blast
    have D3: ?D3 using nr by blast
    show ?thesis by (rule conjI [OF A conjI [OF B conjI [OF C conjI [OF D1 conjI [OF D2 D3]]]]])
  next
    case store
    then have rest: "rest = store_and_complete sv job_id file_paths now all_chunks s3"
      by (simp add: rest_def)
    have f: "fst (store_embeddings sv (index s3) all_chunks job_id) = Inl e"
      using store(2) by (simp add: ix_s3)
    note p = store_and_complete_fail [OF f, of file_paths now]
    have rd: "\<forall>f\<in>set file_paths. readable dp sv f" using store(1) readable_iff by simp
    have "map (\<lambda>x. status (job x)) run =
        Pending # replicate (Suc (4 + length tr)) Processing @ replicate (Suc (Suc 0)) Failed"
      by (simp add: run_st rest p(1) st_s3 replicate_add [symmetric] del: replicate_Suc replicate.simps)
        (simp add: eval_nat_numeral replicate_app_Cons_same)
    then have A: ?A by (rule lifecycle_shapeI) simp
    have "\<forall>y\<in>set rest. progress (job y) = 60"
      using map_eq_mem [OF p(2) [folded rest]] by auto
    then have B: ?B using s3_50 by (intro run_sorted) (simp_all add: p(2) [folded rest])
    have ne: "rest \<noteq> []" using p(2) [folded rest] by auto
    have "\<forall>x\<in>set rest. status (job x) \<noteq> Completed"
      using map_eq_mem [OF p(1) [folded rest]] st_s3 by (fastforce simp: eval_nat_numeral)
    then have C: ?C using head_not_completed by (auto simp: run_eq)
    have l: "last run = last (store_and_complete sv job_id file_paths now all_chunks s3)"
      using last_run [OF ne] rest by simp
    have D1: ?D1 using fail_first store(1) by auto
    have D2: ?D2 using store(2) by (auto simp: l p(3,4))
    have D3: ?D3 using store(2) by auto
    show ?thesis by (rule conjI [OF A conjI [OF B conjI [OF C conjI [OF D1 conjI [OF D2 D3]]]]])
  next
    case ok
    then have rest: "rest = store_and_complete sv job_id file_paths now all_chunks s3"
      by (simp add: rest_def)
    have f: "fst (store_embeddings sv (index s3) all_chunks job_id) = Inr ()"
      using ok(2) by (simp add: ix_s3)
    note p = store_and_complete_ok [OF f st_s3, of file_paths now]
    have rd: "\<forall>f\<in>set file_paths. readable dp sv f" using ok(1) readable_iff by simp
    have "map (\<lambda>x. status (job x)) run =
        Pending # replicate (Suc (5 + length tr)) Processing @ replicate (Suc (Suc (Suc 0))) Completed"
      by (simp add: run_st rest p(1) eval_nat_numeral replicate_app_Cons_same)
    then have A: ?A by (rule lifecycle_shapeI) simp
    have "\<forall>y\<in>set rest. progress (job y) = 60 \<or> progress (job y) = 100"
      using map_eq_mem [OF p(2) [folded rest]] by auto
    then have B: ?B using s3_50 by (intro run_sorted) (auto simp: p(2) [folded rest])
    have ne: "rest \<noteq> []" using p(2) [folded rest] by auto
    from store_embeddings_ok [OF ok(2)] obtain es where
      es: "encode sv (map chunk_text all_chunks) = Inr es"
      and w: "snd (store_embeddings sv (index s0) all_chunks job_id) =
                index s0 @ prepare_vectors job_id all_chunks es" by blast
    from enc es have "length es = length (map chunk_text all_chunks)" by blast
    then have n: "length (prepare_vectors job_id all_chunks es) = length all_chunks"
      by (simp add: length_prepare_vectors)
    have "\<forall>x\<in>set rest. status (job x) = Completed \<longrightarrow>
        index x = index s0 @ prepare_vectors job_id all_chunks es \<and>
        processed x = (processed s0)(metadata_path job_id \<mapsto>
               \<lparr>md_job_id = job_id, md_files = file_paths,
                chunks_count = length all_chunks, processed_at = now\<rparr>)"
      using p(5) [folded rest] by (simp add: ix_s3 pc_s3 w)
    then have C: ?C using head_not_completed rd es n by (auto simp: run_eq)
    have l: "last run = last (store_and_complete sv job_id file_paths now all_chunks s3)"
      using last_run [OF ne] rest by simp
    have D1: ?D1 using fail_first ok(1) by auto
    have D2: ?D2 using ok(2) by auto
    have D3: ?D3 by (simp add: l p(3,4))
    show ?thesis by (rule conjI [OF A conjI [OF B conjI [OF C conjI [OF D1 conjI [OF D2 D3]]]]])
  qed
qed

lemma demo_encode_lengths:
  "\<forall>texts es. encode (demo_services ms reply) texts = Inr es \<longrightarrow> length es = length texts"
  "\<forall>texts es. encode unreadable_services texts = Inr es \<longrightarrow> length es = length texts"
  "\<forall>texts es. encode full_index_services texts = Inr es \<longrightarrow> length es = length texts"
  by (auto simp: demo_services_def unreadable_services_def full_index_services_def)

lemma demo_job:
  "length demo_files \<le> 15" "status (job demo_task_state) = Pending"
  "progress (job demo_task_state) = 0"
  by (simp_all add: demo_files_def demo_task_state_def new_job_def)

lemma demo_readable:
  "\<forall>f\<in>set demo_files. readable demo_processor (demo_services [] UnexpectedFormat) f"
  "\<forall>f\<in>set demo_files. readable demo_processor full_index_services f"
  unfolding demo_files_def by (simp; code_simp)+

lemma demo_store_ok:
  "fst (store_embeddings (demo_services [] UnexpectedFormat) (index demo_task_state)
     (all_chunks_of demo_processor (demo_services [] UnexpectedFormat) demo_files) ''j'') = Inr ()"
  by code_simp

lemma demo_store_full:
  "fst (store_embeddings full_index_services (index demo_task_state)
     (all_chunks_of demo_processor full_index_services demo_files) ''j'') =
   Inl (Exception ''Error storing embeddings: index is full'')"
  by code_simp

lemma demo_unreadable:
  "process_pdf demo_processor unreadable_services ''uploads/j_a.pdf'' ''a.pdf'' =
     Inl (Exception ''Error processing PDF a.pdf: Error extracting text from PDF: cannot open'')"
  by code_simp

theorem ingestion_job_lifecycle_witness:
  "length demo_files \<le> 15 \<and> status (job demo_task_state) = Pending \<and>
   progress (job demo_task_state) = 0 \<and>
   map (\<lambda>x. status (job x)) demo_run =
     Pending # replicate 12 Processing @ replicate 3 Completed \<and>
   sorted (map (\<lambda>x. progress (job x)) demo_run) \<and>
   fst (store_embeddings (demo_services [] UnexpectedFormat) (index demo_task_state)
     (all_chunks_of demo_processor (demo_services [] UnexpectedFormat) demo_files) ''j'') = Inr () \<and>
   status (job (last demo_run)) = Completed \<and> progress (job (last demo_run)) = 100 \<and>
   map vec_id (index (last demo_run)) = [''j_a.pdf_0'', ''j_b.pdf_1''] \<and>
   process_pdf demo_processor unreadable_services ''uploads/j_a.pdf'' ''a.pdf'' =
     Inl (Exception ''Error processing PDF a.pdf: Error extracting text from PDF: cannot open'') \<and>
   status (job (last (process_documents_task demo_processor unreadable_services ''j'' demo_files
      ''now'' demo_task_state))) = Failed \<and>
   message (job (last (process_documents_task demo_processor unreadable_services ''j'' demo_files
      ''now'' demo_task_state))) =
     ''Error: Error processing PDF a.pdf: Error extracting text from PDF: cannot open'' \<and>
   fst (store_embeddings full_index_services (index demo_task_state)
     (all_chunks_of demo_processor full_index_services demo_files) ''j'') =
     Inl (Exception ''Error storing embeddings: index is full'') \<and>
   status (job (last (process_documents_task demo_processor full_index_services ''j'' demo_files
      ''now'' demo_task_state))) = Failed \<and>
   message (job (last (process_documents_task demo_processor full_index_services ''j'' demo_files
      ''now'' demo_task_state))) = ''Error: Error storing embeddings: index is full''"
proof -
  note ok = ingestion_job_lifecycle [OF demo_job demo_encode_lengths(1) demo_run_def refl]
  note ko1 = ingestion_job_lifecycle [OF demo_job demo_encode_lengths(2) refl refl,
      of demo_processor "''j''" "''now''"]
  note ko2 = ingestion_job_lifecycle [OF demo_job demo_encode_lengths(3) refl refl,
      of demo_processor "''j''" "''now''"]
  have st: "map (\<lambda>x. status (job x)) demo_run =
     Pending # replicate 12 Processing @ replicate 3 Completed" by code_simp
  have ids: "map vec_id (index (last demo_run)) = [''j_a.pdf_0'', ''j_b.pdf_1'']" by code_simp
  have b: "sorted (map (\<lambda>x. progress (job x)) demo_run)"
    using ok by (rule conjunct2 [THEN conjunct1])
  have d3: "status (job (last demo_run)) = Completed \<and> progress (job (last demo_run)) = 100"
    using ok [THEN conjunct2, THEN conjunct2, THEN conjunct2, THEN conjunct2, THEN conjunct2]
      demo_readable(1) demo_store_ok by blast
  have "demo_files = [] @ hd demo_files # tl demo_files" by (simp add: demo_files_def)
  moreover have "path (hd demo_files) = ''uploads/j_a.pdf''" "filename (hd demo_files) = ''a.pdf''"
    by (simp_all add: demo_files_def)
  ultimately have d1: "status (job (last (process_documents_task demo_processor unreadable_services
        ''j'' demo_files ''now'' demo_task_state))) = Failed \<and>
      message (job (last (process_documents_task demo_processor unreadable_services ''j'' demo_files
        ''now'' demo_task_state))) =
      ''Error: '' @ str_of (Exception ''Error processing PDF a.pdf: Error extracting text from PDF: cannot open'')"
    using ko1 [THEN conjunct2, THEN conjunct2, THEN conjunct2, THEN conjunct1, rule_format,
        of "[]" "hd demo_files" "tl demo_files"] demo_unreadable
    by simp
  have d2: "status (job (last (process_documents_task demo_processor full_index_services
        ''j'' demo_files ''now'' demo_task_state))) = Failed \<and>
      message (job (last (process_documents_task demo_processor full_index_services ''j'' demo_files
        ''now'' demo_task_state))) =
      ''Error: '' @ str_of (Exception ''Error storing embeddings: index is full'')"
    using ko2 [THEN conjunct2, THEN conjunct2, THEN conjunct2, THEN conjunct2, THEN conjunct1]
      demo_readable(2) demo_store_full by blast
  from demo_job st ids b d3 d1 d2 demo_store_ok demo_store_full demo_unreadable
  show ?thesis by simp
qed

subsection \<open>Truncation of a long prompt\<close>

lemma startswith_append: "startswith (p @ t) p"
  by (induction p) simp_all

lemma startswith_hd: "startswith s (p # ps) \<Longrightarrow> s \<noteq> [] \<and> hd s = p"
  by (cases s) simp_all

lemma startswith_spill:
  "startswith (d @ t) q \<Longrightarrow> \<not> startswith d q \<Longrightarrow> t \<noteq> [] \<and> hd t \<in> set q"
proof (induction d q rule: startswith.induct)
  case (1 s)
  then show ?case by simp
next
  case (2 p ps)
  then show ?case by (cases t) simp_all
next
  case (3 c cs p ps)
  then show ?case by auto
qed

lemma rfind_ge: "- 1 \<le> rfind s sub"
  by (induction s) (simp_all add: Let_def)

lemma rfind_no_first:
  assumes "sub \<noteq> []" and "hd sub \<notin> set x"
  shows "rfind (x @ y) sub = (if 0 \<le> rfind y sub then rfind y sub + int (length x) else - 1)"
  using assms(2)
proof (induction x)
  case Nil
  from rfind_ge [of y sub] show ?case by auto
next
  case (Cons c x)
  obtain p ps where sub: "sub = p # ps" using assms(1) by (cases sub) auto
  from Cons.prems have "c \<noteq> p" by (auto simp: sub)
  then have "\<not> startswith (c # x @ y) sub" by (simp add: sub)
  with Cons show ?case by (simp add: Let_def)
qed

lemma rfind_no_spill:
  assumes "rfind q sub < 0" and "t = [] \<or> hd t \<notin> set sub" and "rfind t sub < 0"
  shows "rfind (q @ t) sub < 0"
  using assms(1)
proof (induction q)
  case Nil
  then show ?case using assms(3) by simp
next
  case (Cons c q)
  from Cons.prems have q: "rfind q sub < 0" and n: "\<not> startswith (c # q) sub"
    by (auto simp: Let_def split: if_splits)
  from Cons.IH [OF q] have r: "rfind (q @ t) sub < 0" .
  have "\<not> startswith ((c # q) @ t) sub"
    using startswith_spill [of "c # q" t sub] n assms(2) by blast
  with r show ?case by (simp add: Let_def)
qed

lemma rfind_absent: "sub \<noteq> [] \<Longrightarrow> hd sub \<notin> set t \<Longrightarrow> rfind t sub < 0"
  using rfind_no_first [of sub t "[]"] by simp

lemma rfind_append:
  "0 \<le> rfind s sub \<Longrightarrow> rfind (a @ s) sub = int (length a) + rfind s sub"
  by (induction a) (simp_all add: Let_def)

lemma rfind_last_occurrence:
  assumes "rfind t sub < 0" and "sub \<noteq> []"
    and "rfind (tl (sub @ t)) sub < 0"
  shows "rfind (a @ sub @ t) sub = int (length a)"
proof -
  obtain p ps where sub: "sub = p # ps" using assms(2) by (cases sub) auto
  have "rfind (sub @ t) sub = 0"
    using assms(3) startswith_append [of sub t] by (simp add: sub Let_def)
  then show ?thesis using rfind_append [of "sub @ t" sub a] by simp
qed

lemma no_Q_in_instructions: "CHR ''Q'' \<notin> set prompt_instructions"
  by (simp add: prompt_instructions_def nl_def)

lemma hd_instructions: "prompt_instructions \<noteq> [] \<and> hd prompt_instructions = CHR 0x0A"
  by (simp add: prompt_instructions_def nl_def)

lemma build_prompt_parts:
  "build_prompt c h q = before_question c h @ question_part q"
  by (simp add: build_prompt_def before_question_def question_part_def)

lemma rfind_prompt:
  assumes "\<not> contains query ''Question:''"
  shows "rfind (build_prompt c h query) ''Question:'' = int (length (before_question c h))"
proof -
  have q: "rfind query ''Question:'' < 0" using assms by (simp add: contains_def)
  have i: "rfind prompt_instructions ''Question:'' < 0"
    by (rule rfind_absent) (simp_all add: no_Q_in_instructions)
  have "rfind (query @ prompt_instructions) ''Question:'' < 0"
    using q _ i by (rule rfind_no_spill) (simp add: hd_instructions)
  then have t: "rfind ('' '' @ query @ prompt_instructions) ''Question:'' < 0"
    using rfind_no_first [of "''Question:''" "'' ''" "query @ prompt_instructions"] by simp
  have "rfind (''uestion:'' @ '' '' @ query @ prompt_instructions) ''Question:'' < 0"
    using rfind_no_first [of "''Question:''" "''uestion:''" "'' '' @ query @ prompt_instructions"] t
    by simp
  then have "rfind (tl (''Question:'' @ '' '' @ query @ prompt_instructions)) ''Question:'' < 0"
    by simp
  from rfind_last_occurrence [OF t _ this, of "before_question c h"]
  show ?thesis by (simp add: build_prompt_parts question_part_def)
qed

lemma before_question_not_empty: "0 < length (before_question c h)"
  by (simp add: before_question_def)

lemma truncate_long:
  assumes "\<not> contains query ''Question:''"
    and "2500 < length (build_prompt c h query)"
  shows "truncate_prompt (build_prompt c h query) =
           slice_to (before_question c h) (2400 - int (length (question_part query))) @
           truncation_marker @ question_part query"
proof -
  have r: "rfind (build_prompt c h query) ''Question:'' = int (length (before_question c h))"
    by (rule rfind_prompt [OF assms(1)])
  have t: "take (length (before_question c h)) (build_prompt c h query) = before_question c h"
    and d: "drop (length (before_question c h)) (build_prompt c h query) = question_part query"
    by (simp_all add: build_prompt_parts)
  show ?thesis
    unfolding truncate_prompt_def Let_def r
    using assms(2) before_question_not_empty [of c h] by (simp add: t d)
qed

lemma slice_to_proper:
  assumes "2500 < length before + length qp" and "0 < length before"
  shows "\<exists>k<length before. slice_to before (2400 - int (length qp)) = take k before \<and>
           (length qp \<le> 2400 \<longrightarrow> k = 2400 - length qp \<and> k + 100 < length before)"
proof (cases "length qp \<le> 2400")
  case True
  then have "slice_to before (2400 - int (length qp)) = take (2400 - length qp) before"
    by (simp add: slice_to_def nat_diff_distrib')
  moreover have "2400 - length qp + 100 < length before" using assms True by simp
  ultimately show ?thesis using True by (intro exI [of _ "2400 - length qp"]) simp
next
  case False
  then have s: "slice_to before (2400 - int (length qp)) =
      take (nat (int (length before) + (2400 - int (length qp)))) before"
    by (simp add: slice_to_def)
  have "nat (int (length before) + (2400 - int (length qp))) < length before"
    using False assms by linarith
  with s False show ?thesis by (intro exI [of _ "nat (int (length before) + (2400 - int (length qp)))"]) simp
qed

lemma get_response_posts:
  assumes "retrieve_context sv query 5 = Inr contexts" and "contexts \<noteq> []"
    and "sarvam_key sv = Some key" and "key \<noteq> []"
  shows "snd (get_response sv query history) =
           [truncate_prompt (build_prompt (context_block sv contexts) (history_block history) query)]"
  using assms
  by (simp add: get_response_def call_llm_api_def Let_def split: llm_outcome.splits)

lemma rfind_marker_last:
  assumes "rfind rest ''Question:'' < 0"
  shows "rfind (a @ ''Question:'' @ rest @ prompt_instructions) ''Question:'' = int (length a)"
proof -
  have i: "rfind prompt_instructions ''Question:'' < 0"
    by (rule rfind_absent) (simp_all add: no_Q_in_instructions)
  have t: "rfind (rest @ prompt_instructions) ''Question:'' < 0"
    using assms _ i by (rule rfind_no_spill) (simp add: hd_instructions)
  have "rfind (''uestion:'' @ rest @ prompt_instructions) ''Question:'' < 0"
    using rfind_no_first [of "''Question:''" "''uestion:''" "rest @ prompt_instructions"] t
    by simp
  then have "rfind (tl (''Question:'' @ rest @ prompt_instructions)) ''Question:'' < 0"
    by simp
  from rfind_last_occurrence [OF t _ this, of a]
  show ?thesis by simp
qed

lemma truncate_at_marker:
  assumes "rfind rest ''Question:'' < 0"
    and "2500 < length a + length (''Question:'' @ rest @ prompt_instructions)"
    and "a \<noteq> []"
  shows "truncate_prompt (a @ ''Question:'' @ rest @ prompt_instructions) =
           slice_to a (2400 - int (length (''Question:'' @ rest @ prompt_instructions))) @
           truncation_marker @ ''Question:'' @ rest @ prompt_instructions"
proof -
  let ?q = "''Question:'' @ rest @ prompt_instructions"
  have r: "rfind (a @ ?q) ''Question:'' = int (length a)"
    by (rule rfind_marker_last [OF assms(1)])
  have l: "2500 < int (length (a @ ?q))" using assms(2) by simp
  have p: "0 < int (length a)" using assms(3) by simp
  have t: "take (length a) (a @ ?q) = a" and d: "drop (length a) (a @ ?q) = ?q" by simp_all
  show ?thesis
    unfolding truncate_prompt_def Let_def r
    by (simp only: l p if_True nat_int t d) simp
qed

lemma take_past: "length p = n \<Longrightarrow> n \<le> k \<Longrightarrow> take k (p @ x) = p @ take (k - n) x"
  by simp

lemma long_context:
  "context_block long_services long_contexts =
     ''[Source: a.pdf, Relevance: 1.00]'' @ nl @ replicate 1500 CHR ''a'' @ nl @ nl @
     ''[Source: b.pdf, Relevance: 1.00]'' @ nl @ replicate 1500 CHR ''b''"
  by (simp add: context_block_def long_contexts_def context_of_def long_match_a_def
      long_match_b_def long_services_def demo_services_def)

lemma length_head:
  "length (prompt_head @ ''[Source: a.pdf, Relevance: 1.00]'' @ nl @ replicate 1500 CHR ''a'' @ nl @ nl @
           ''[Source: b.pdf, Relevance: 1.00]'' @ nl) = 1673"
  by (simp add: prompt_head_def nl_def)

lemma length_instructions: "length prompt_instructions = 347"
  by (simp add: prompt_instructions_def nl_def)

lemma long_retrieve:
  "retrieve_context long_services q 5 = Inr long_contexts"
  by (simp add: retrieve_context_def generate_embeddings_def long_services_def demo_services_def
      long_contexts_def)

lemma long_key: "sarvam_key long_services = Some ''key''"
  by (simp add: long_services_def demo_services_def)

lemma plain_no_marker: "\<not> contains plain_query ''Question:''"
  by code_simp

lemma long_prompt_length:
  "2500 < length (build_prompt (context_block long_services long_contexts)
     (history_block demo_history) plain_query)"
  by code_simp

lemma question_part_short: "length (question_part plain_query) = 367"
  by code_simp

text \<open>
  Claim C2, as the code has it. A query that does not have the text \<open>Question:\<close> in
  it, for which the index returns matches, and a prompt of more than 2500 characters.
  The prompt is the text before \<open>Question:\<close> (the header, the context block, the
  history block and the word \<open>User\<close>) followed by the question and the instructions.
  The prompt posted is a proper prefix of the text before \<open>Question:\<close>, of \<open>k\<close>
  characters, then the marker, then the question and the instructions as they are.
  When the question and the instructions have at most 2400 characters, \<open>k\<close> is 2400 less
  their length, and more than 100 characters are cut from the end of the text before
  \<open>Question:\<close>: the history block, which is at that end, goes first, and the context
  block is cut at its end.
\<close>

theorem truncation_cuts_before_question:
  assumes "retrieve_context sv query 5 = Inr contexts" and "contexts \<noteq> []"
    and "sarvam_key sv = Some key" and "key \<noteq> []"
    and "\<not> contains query ''Question:''"
    and "prompt = build_prompt (context_block sv contexts) (history_block history) query"
    and "2500 < length prompt"
    and "before = before_question (context_block sv contexts) (history_block history)"
  shows "prompt = before @ question_part query \<and>
         (\<exists>k<length before.
            snd (get_response sv query history) =
              [take k before @ truncation_marker @ question_part query] \<and>
            (length (question_part query) \<le> 2400 \<longrightarrow>
               k = 2400 - length (question_part query) \<and> k + 100 < length before))"
proof -
  have p: "prompt = before @ question_part query"
    by (simp add: assms(6,8) build_prompt_parts)
  have "2500 < length before + length (question_part query)"
    using assms(7) by (simp add: p)
  moreover have "0 < length before" unfolding assms(8) by (rule before_question_not_empty)
  ultimately obtain k where k: "k < length before"
    "slice_to before (2400 - int (length (question_part query))) = take k before"
    "length (question_part query) \<le> 2400 \<longrightarrow>
       k = 2400 - length (question_part query) \<and> k + 100 < length before"
    using slice_to_proper [of before "question_part query"] by blast
  have "snd (get_response sv query history) = [truncate_prompt prompt]"
    unfolding assms(6) by (rule get_response_posts [OF assms(1-4)])
  also have "truncate_prompt prompt =
      slice_to before (2400 - int (length (question_part query))) @ truncation_marker @
      question_part query"
    unfolding assms(6,8) using assms(5,7) [unfolded assms(6)] by (rule truncate_long)
  finally have "snd (get_response sv query history) =
      [take k before @ truncation_marker @ question_part query]" by (simp add: k(2))
  with k p show ?thesis by blast
qed

theorem truncation_cuts_before_question_witness:
  "retrieve_context long_services plain_query 5 = Inr long_contexts \<and>
   sarvam_key long_services = Some ''key'' \<and>
   \<not> contains plain_query ''Question:'' \<and>
   2500 < length (build_prompt (context_block long_services long_contexts)
     (history_block demo_history) plain_query) \<and>
   length (question_part plain_query) \<le> 2400 \<and>
   2033 + 100 < length (before_question (context_block long_services long_contexts)
        (history_block demo_history)) \<and>
   snd (get_response long_services plain_query demo_history) =
     [take 2033 (before_question (context_block long_services long_contexts)
        (history_block demo_history)) @ truncation_marker @ question_part plain_query]"
proof -
  have ne: "long_contexts \<noteq> []" and k: "''key'' \<noteq> []"
    by (simp_all add: long_contexts_def)
  from truncation_cuts_before_question [OF long_retrieve ne long_key k plain_no_marker refl
      long_prompt_length refl]
    long_retrieve long_key plain_no_marker long_prompt_length
  show ?thesis by (auto simp: question_part_short)
qed

lemma plain_prompt:
  "build_prompt (context_block long_services long_contexts) (history_block demo_history)
       plain_query =
     ((prompt_head @ ''[Source: a.pdf, Relevance: 1.00]'' @ nl @ replicate 1500 CHR ''a'' @ nl @ nl @
        ''[Source: b.pdf, Relevance: 1.00]'' @ nl) @ replicate 1500 CHR ''b'' @
       nl @ nl @ ''Previous conversation:'' @ nl @ (''USER: hi'' @ nl @ ''ASSISTANT: hello'') @
       nl @ nl @ ''User '') @
     ''Question:'' @ '' What is a?'' @ prompt_instructions"
  by (simp add: build_prompt_def history_block_def demo_history_def plain_query_def long_context
      nl_def)

lemma plain_sent:
  "snd (get_response long_services plain_query demo_history) =
     [prompt_head @ ''[Source: a.pdf, Relevance: 1.00]'' @ nl @ replicate 1500 CHR ''a'' @ nl @ nl @
      ''[Source: b.pdf, Relevance: 1.00]'' @ nl @ replicate 360 CHR ''b'' @
      truncation_marker @ ''Question: What is a?'' @ prompt_instructions]"
proof -
  let ?p = "prompt_head @ ''[Source: a.pdf, Relevance: 1.00]'' @ nl @ replicate 1500 CHR ''a'' @ nl @ nl @
      ''[Source: b.pdf, Relevance: 1.00]'' @ nl"
  let ?a = "?p @ replicate 1500 CHR ''b'' @
       nl @ nl @ ''Previous conversation:'' @ nl @ (''USER: hi'' @ nl @ ''ASSISTANT: hello'') @
       nl @ nl @ ''User ''"
  have ne: "long_contexts \<noteq> []" and k: "''key'' \<noteq> []"
    by (simp_all add: long_contexts_def)
  have r: "rfind '' What is a?'' ''Question:'' < 0" by code_simp
  have l: "2500 < length ?a + length (''Question:'' @ '' What is a?'' @ prompt_instructions)" by simp
  have a: "?a \<noteq> []" by (simp add: prompt_head_def)
  have q: "length (''Question:'' @ '' What is a?'' @ prompt_instructions) = 367"
    by (simp add: length_instructions)
  have s: "slice_to ?a (2400 - int 367) = ?p @ replicate 360 CHR ''b''"
    unfolding slice_to_def using take_past [OF length_head, of 2033] by simp
  have "snd (get_response long_services plain_query demo_history) =
      [truncate_prompt (build_prompt (context_block long_services long_contexts)
         (history_block demo_history) plain_query)]"
    by (rule get_response_posts [OF long_retrieve ne long_key k])
  also have "\<dots> = [truncate_prompt (?a @ ''Question:'' @ '' What is a?'' @ prompt_instructions)]"
    by (simp only: plain_prompt)
  also have "\<dots> = [slice_to ?a (2400 - int 367) @ truncation_marker @ ''Question:'' @
      '' What is a?'' @ prompt_instructions]"
    using truncate_at_marker [OF r l a] by (simp only: q)
  finally show ?thesis unfolding s by simp
qed

lemma no_U_sent:
  "CHR ''U'' \<notin> set (prompt_head @ ''[Source: a.pdf, Relevance: 1.00]'' @ nl @ replicate 1500 CHR ''a'' @ nl @ nl @
      ''[Source: b.pdf, Relevance: 1.00]'' @ nl @
      replicate 360 CHR ''b'' @ truncation_marker @ ''Question: What is a?'' @ prompt_instructions)"
  by (simp add: prompt_head_def nl_def truncation_marker_def prompt_instructions_def)

text \<open>
  The claim as the specification states it fails: with two matches of 1500
  characters each and a history of one exchange, the prompt posted has the start of
  the context block, cut at its end, and nothing of the history block.
\<close>

theorem history_cut_counterexample:
  "history_block demo_history = ''USER: hi'' @ nl @ ''ASSISTANT: hello'' \<and>
   retrieve_context long_services plain_query 5 = Inr long_contexts \<and>
   2500 < length (build_prompt (context_block long_services long_contexts)
     (history_block demo_history) plain_query) \<and>
   context_block long_services long_contexts =
     ''[Source: a.pdf, Relevance: 1.00]'' @ nl @ replicate 1500 CHR ''a'' @ nl @ nl @
     ''[Source: b.pdf, Relevance: 1.00]'' @ nl @ replicate 1500 CHR ''b'' \<and>
   snd (get_response long_services plain_query demo_history) =
     [prompt_head @ ''[Source: a.pdf, Relevance: 1.00]'' @ nl @ replicate 1500 CHR ''a'' @ nl @ nl @
      ''[Source: b.pdf, Relevance: 1.00]'' @ nl @ replicate 360 CHR ''b'' @
      truncation_marker @ ''Question: What is a?'' @ prompt_instructions] \<and>
   \<not> contains (hd (snd (get_response long_services plain_query demo_history)))
       (history_block demo_history)"
proof -
  have h: "history_block demo_history = ''USER: hi'' @ nl @ ''ASSISTANT: hello''"
    by (simp add: history_block_def demo_history_def nl_def)
  have "rfind (prompt_head @ ''[Source: a.pdf, Relevance: 1.00]'' @ nl @ replicate 1500 CHR ''a'' @ nl @ nl @
      ''[Source: b.pdf, Relevance: 1.00]'' @ nl @
      replicate 360 CHR ''b'' @ truncation_marker @ ''Question: What is a?'' @ prompt_instructions)
      (''USER: hi'' @ nl @ ''ASSISTANT: hello'') < 0"
    by (rule rfind_absent) (use no_U_sent in simp_all)
  then have c: "\<not> contains (hd (snd (get_response long_services plain_query demo_history)))
       (history_block demo_history)"
    by (simp only: plain_sent h contains_def list.sel)
  from h long_retrieve [of plain_query] long_prompt_length long_context plain_sent c
  show ?thesis by simp
qed

lemma marked_prompt:
  "build_prompt (context_block long_services long_contexts) (history_block [])
       marked_query =
     ((prompt_head @ ''[Source: a.pdf, Relevance: 1.00]'' @ nl @ replicate 1500 CHR ''a'' @ nl @ nl @
        ''[Source: b.pdf, Relevance: 1.00]'' @ nl) @ replicate 1500 CHR ''b'' @
       nl @ nl @ ''User Question: Summarise the answer to '') @
     ''Question:'' @ '' 3'' @ prompt_instructions"
  by (simp add: build_prompt_def history_block_def marked_query_def long_context)

lemma marked_sent:
  "snd (get_response long_services marked_query []) =
     [prompt_head @ ''[Source: a.pdf, Relevance: 1.00]'' @ nl @ replicate 1500 CHR ''a'' @ nl @ nl @
      ''[Source: b.pdf, Relevance: 1.00]'' @ nl @ replicate 369 CHR ''b'' @
      truncation_marker @ ''Question: 3'' @ prompt_instructions]"
proof -
  let ?p = "prompt_head @ ''[Source: a.pdf, Relevance: 1.00]'' @ nl @ replicate 1500 CHR ''a'' @ nl @ nl @
      ''[Source: b.pdf, Relevance: 1.00]'' @ nl"
  let ?a = "?p @ replicate 1500 CHR ''b'' @ nl @ nl @ ''User Question: Summarise the answer to ''"
  have ne: "long_contexts \<noteq> []" and k: "''key'' \<noteq> []"
    by (simp_all add: long_contexts_def)
  have r: "rfind '' 3'' ''Question:'' < 0" by code_simp
  have l: "2500 < length ?a + length (''Question:'' @ '' 3'' @ prompt_instructions)" by simp
  have a: "?a \<noteq> []" by (simp add: prompt_head_def)
  have q: "length (''Question:'' @ '' 3'' @ prompt_instructions) = 358"
    by (simp add: length_instructions)
  have s: "slice_to ?a (2400 - int 358) = ?p @ replicate 369 CHR ''b''"
    unfolding slice_to_def using take_past [OF length_head, of 2042] by simp
  have "snd (get_response long_services marked_query []) =
      [truncate_prompt (build_prompt (context_block long_services long_contexts)
         (history_block []) marked_query)]"
    by (rule get_response_posts [OF long_retrieve ne long_key k])
  also have "\<dots> = [truncate_prompt (?a @ ''Question:'' @ '' 3'' @ prompt_instructions)]"
    by (simp only: marked_prompt)
  also have "\<dots> = [slice_to ?a (2400 - int 358) @ truncation_marker @ ''Question:'' @ '' 3'' @
      prompt_instructions]"
    using truncate_at_marker [OF r l a] by (simp only: q)
  finally show ?thesis unfolding s by simp
qed

text \<open>
  Claim C1, at an input where the code leaves it. The query
  \<open>Summarise the answer to Question: 3\<close> arrives, the index returns two matches of 1500
  characters each, and there is no history. The last \<open>Question:\<close> of the prompt is the one
  inside the query, so the cut is made before it: the prompt posted has the start of the
  context block, the marker, and \<open>Question: 3\<close> with the instructions; the words
  \<open>Summarise the answer to\<close> of the query are not in it.
\<close>

theorem question_cut_when_query_has_marker:
  "marked_query = ''Summarise the answer to Question: 3'' \<and>
   retrieve_context long_services marked_query 5 = Inr long_contexts \<and>
   context_block long_services long_contexts =
     ''[Source: a.pdf, Relevance: 1.00]'' @ nl @ replicate 1500 CHR ''a'' @ nl @ nl @
     ''[Source: b.pdf, Relevance: 1.00]'' @ nl @ replicate 1500 CHR ''b'' \<and>
   snd (get_response long_services marked_query []) =
     [prompt_head @ ''[Source: a.pdf, Relevance: 1.00]'' @ nl @ replicate 1500 CHR ''a'' @ nl @ nl @
      ''[Source: b.pdf, Relevance: 1.00]'' @ nl @ replicate 369 CHR ''b'' @
      truncation_marker @ ''Question: 3'' @ prompt_instructions]"
  using long_retrieve [of marked_query] long_context marked_sent
  by (simp add: marked_query_def)

subsection \<open>The normalizer applied twice\<close>

text \<open>
  Claim C5, at an input where the code leaves it. On \<open>a @ b\<close> the normalizer first
  collapses the whitespace and then deletes the \<open>@\<close>, which leaves the two spaces
  around it next to each other; applied to its own result it collapses them. The
  second application changes the text.
\<close>

theorem clean_text_twice_differs:
  "clean_text ''a @ b'' = ''a  b'' \<and>
   clean_text (clean_text ''a @ b'') = ''a b'' \<and>
   clean_text (clean_text ''a @ b'') \<noteq> clean_text ''a @ b''"
  by code_simp

subsection \<open>A text that fits one chunk\<close>

lemma startswith_take: "startswith s p \<Longrightarrow> take (length p) s = p"
  by (induction s p rule: startswith.induct) simp_all

lemma concat_singletons: "concat (map (\<lambda>p. [p]) xs) = xs"
  by (induction xs) simp_all

lemma concat_split_on: "concat (split_on sep acc s) = acc @ s"
proof (induction sep acc s rule: split_on.induct)
  case (1 sep acc)
  show ?case by simp
next
  case (2 sep acc c cs)
  show ?case
  proof (cases "sep \<noteq> [] \<and> startswith (c # cs) sep")
    case True
    then have "take (length sep) (c # cs) = sep"
      by (simp only: startswith_take)
    then have "sep @ drop (length sep) (c # cs) = c # cs"
      by (metis append_take_drop_id)
    with True 2(1) show ?thesis by simp
  next
    case False
    with 2(2) show ?thesis by auto
  qed
qed

lemma split_on_not_empty: "split_on sep acc s \<noteq> []"
  by (induction sep acc s rule: split_on.induct) auto

lemma length_piece:
  assumes "p \<in> set ps"
  shows "length p \<le> length (concat ps)"
  using assms by (induction ps) auto

lemma merge_pieces_fit:
  "length cur + length (concat ps) \<le> csize \<Longrightarrow>
   merge_pieces csize overlap cur ps = [cur @ concat ps]"
  by (induction ps arbitrary: cur) simp_all

lemma rec_split_fit:
  assumes "sep \<noteq> []" and "length seg \<le> csize"
  shows "rec_split csize (sep # seps) seg = split_on sep [] seg"
proof -
  have c: "concat (split_on sep [] seg) = seg" using concat_split_on [of sep "[]" seg] by simp
  have "\<forall>p\<in>set (split_on sep [] seg). \<not> csize < length p"
  proof
    fix p assume "p \<in> set (split_on sep [] seg)"
    from length_piece [OF this] assms(2) show "\<not> csize < length p" by (simp add: c)
  qed
  then have m: "map (\<lambda>p. if csize < length p then rec_split csize seps p else [p]) (split_on sep [] seg) =
      map (\<lambda>p. [p]) (split_on sep [] seg)"
    by (intro map_cong) auto
  show ?thesis
    by (simp only: rec_split.simps split_at_def assms(1) if_False m concat_singletons)
qed

lemma split_text_fit:
  assumes "length txt \<le> csize"
  shows "split_text csize overlap txt = [txt]"
proof -
  let ?ps = "split_on (nl @ nl) [] txt"
  have n: "nl @ nl \<noteq> []" by (simp add: nl_def)
  have r: "rec_split csize separators txt = ?ps"
    unfolding separators_def by (rule rec_split_fit [OF n assms])
  have c: "concat ?ps = txt" using concat_split_on [of "nl @ nl" "[]" "txt"] by simp
  obtain p ps where ps: "?ps = p # ps" using split_on_not_empty [of "nl @ nl" "[]" "txt"]
    by (cases ?ps) auto
  from c have "p @ concat ps = txt" by (simp add: ps)
  moreover from this assms have "length p + length (concat ps) \<le> csize"
    by (metis length_append)
  ultimately have "merge_pieces csize overlap p ps = [txt]"
    by (simp add: merge_pieces_fit)
  then show ?thesis by (simp add: split_text_def r reassemble_def ps)
qed

lemma length_collapse_ws: "length (collapse_ws s) \<le> length s"
proof (induction s rule: collapse_ws.induct)
  case 1
  show ?case by simp
next
  case (2 c cs)
  have "length (dropWhile is_space cs) \<le> length cs" by (rule length_dropWhile_le)
  with 2 show ?case by auto
qed

lemma length_fix_spacing: "length (fix_spacing s) \<le> length s"
proof (induction s rule: fix_spacing.induct)
  case 1
  show ?case by simp
next
  case (2 c cs)
  have l: "length (takeWhile is_space cs) + length (dropWhile is_space cs) = length cs"
    by (metis length_append takeWhile_dropWhile_id)
  show ?case
  proof (cases "is_space c")
    case False
    with 2 show ?thesis by simp
  next
    case True
    show ?thesis
    proof (cases "dropWhile is_space cs")
      case Nil
      show ?thesis
        by (simp only: fix_spacing.simps True if_True Nil list.case)
          (simp add: length_takeWhile_le)
    next
      case (Cons d ds)
      with True 2(1,2) [OF True Cons] l show ?thesis by auto
    qed
  qed
qed

lemma length_strip: "length (strip s) \<le> length s"
proof -
  have "length (dropWhile is_space (rev (dropWhile is_space s))) \<le> length (rev (dropWhile is_space s))"
    by (rule length_dropWhile_le)
  also have "\<dots> \<le> length s" by (simp add: length_dropWhile_le)
  finally show ?thesis by (simp add: strip_def)
qed

lemma length_clean_text: "length (clean_text s) \<le> length s"
proof -
  have "length (clean_text s) \<le> length (fix_spacing (remove_special (collapse_ws s)))"
    unfolding clean_text_def by (rule length_strip)
  also have "\<dots> \<le> length (remove_special (collapse_ws s))" by (rule length_fix_spacing)
  also have "\<dots> \<le> length (collapse_ws s)" by (simp add: remove_special_def)
  also have "\<dots> \<le> length s" by (rule length_collapse_ws)
  finally show ?thesis .
qed

text \<open>
  Claim C6. With the splitter of the specification, a text of at most \<open>chunk_size\<close>
  characters gives one chunk: its text is the text given, its \<open>chunk_id\<close> is 0 and its
  \<open>total_chunks\<close> is 1. The normalized form of a text of at most \<open>chunk_size\<close>
  characters is such a text, and the chunk is the normalized text.
\<close>

theorem short_text_single_chunk:
  "(length txt \<le> csize \<longrightarrow>
      create_chunks (DocumentProcessor csize overlap) txt src =
        [\<lparr>chunk_text = txt,
          metadata = \<lparr>source = src, chunk_id = 0, total_chunks = 1, char_count = length txt\<rparr>\<rparr>]) \<and>
   (length raw \<le> csize \<longrightarrow>
      create_chunks (DocumentProcessor csize overlap) (clean_text raw) src =
        [\<lparr>chunk_text = clean_text raw,
          metadata = \<lparr>source = src, chunk_id = 0, total_chunks = 1,
                      char_count = length (clean_text raw)\<rparr>\<rparr>])"
proof -
  have a: "create_chunks (DocumentProcessor csize overlap) t src =
        [\<lparr>chunk_text = t,
          metadata = \<lparr>source = src, chunk_id = 0, total_chunks = 1, char_count = length t\<rparr>\<rparr>]"
    if "length t \<le> csize" for t
    using split_text_fit [OF that, of overlap]
    by (simp add: create_chunks_def DocumentProcessor_def Let_def)
  have "length raw \<le> csize \<Longrightarrow> length (clean_text raw) \<le> csize"
    using length_clean_text [of raw] by simp
  with a [of "txt"] a [of "clean_text raw"] show ?thesis by blast
qed

theorem short_text_single_chunk_witness:
  "length ''Hello, world'' \<le> (1500::nat) \<and>
   length ''Hello ,  world'' \<le> (1500::nat) \<and> clean_text ''Hello ,  world'' = ''Hello, world'' \<and>
   create_chunks (DocumentProcessor 1500 300) ''Hello, world'' ''a.pdf'' =
     [\<lparr>chunk_text = ''Hello, world'',
       metadata = \<lparr>source = ''a.pdf'', chunk_id = 0, total_chunks = 1, char_count = 12\<rparr>\<rparr>] \<and>
   create_chunks (DocumentProcessor 1500 300) (clean_text ''Hello ,  world'') ''a.pdf'' =
     [\<lparr>chunk_text = ''Hello, world'',
       metadata = \<lparr>source = ''a.pdf'', chunk_id = 0, total_chunks = 1, char_count = 12\<rparr>\<rparr>]"
proof -
  have c: "clean_text ''Hello ,  world'' = ''Hello, world''" by code_simp
  from short_text_single_chunk [of "''Hello, world''" 1500 300 "''a.pdf''" "''Hello ,  world''"] c
  show ?thesis by simp
qed

end
